theory Spec2Isabelle
  imports Main "HOL-Library.Multiset"
begin

section \<open>JavaScript strings and numbers\<close>

text \<open>
  The program is the React component \<open>Index\<close> of \<open>src/pages/Index.tsx\<close>. Its time codec works on
  JavaScript strings and numbers. A string is a \<^typ>\<open>string\<close>; every character the codec
  inspects is an ASCII digit, a colon, a point, a sign or a blank. The numbers that the codec
  computes from strings and from floored player times are integers, modelled as \<^typ>\<open>int\<close> in the
  range in which JavaScript represents integers exactly (up to \<open>2^53\<close>). The result of \<open>parseInt\<close>
  on a string without digits is \<open>NaN\<close>, so a number that may be \<open>NaN\<close> is an \<^typ>\<open>int option\<close>
  with \<^term>\<open>None\<close> for \<open>NaN\<close>. The duration of the video is the one number that reaches the
  codec without being floored; it has a type of its own below.
\<close>

definition is_digit :: "char \<Rightarrow> bool" where
  "is_digit c \<longleftrightarrow> 48 \<le> (of_char c :: nat) \<and> (of_char c :: nat) \<le> 57"

definition digit_val :: "char \<Rightarrow> nat" where
  "digit_val c = of_char c - 48"

definition digit_char :: "nat \<Rightarrow> char" where
  "digit_char d = char_of (48 + d)"

definition is_hex_digit :: "char \<Rightarrow> bool" where
  "is_hex_digit c \<longleftrightarrow> is_digit c
     \<or> (97 \<le> (of_char c :: nat) \<and> (of_char c :: nat) \<le> 102)
     \<or> (65 \<le> (of_char c :: nat) \<and> (of_char c :: nat) \<le> 70)"

definition hex_val :: "char \<Rightarrow> nat" where
  "hex_val c = (if is_digit c then digit_val c
                else if 97 \<le> (of_char c :: nat) then of_char c - 87 else of_char c - 55)"

text \<open>The blanks that \<open>parseInt\<close> skips: tab, line feed, vertical tab, form feed, carriage return,
  space and no-break space.\<close>

definition is_space :: "char \<Rightarrow> bool" where
  "is_space c \<longleftrightarrow> (of_char c :: nat) \<in> {9, 10, 11, 12, 13, 32, 160}"

text \<open>\<open>Number.prototype.toString\<close> on an integer: decimal digits, most significant first, with a
  leading minus sign for a negative value.\<close>

fun nat_toString :: "nat \<Rightarrow> string" where
  "nat_toString n = (if n < 10 then [digit_char n]
                     else nat_toString (n div 10) @ [digit_char (n mod 10)])"

declare nat_toString.simps [simp del]

definition toString :: "int \<Rightarrow> string" where
  "toString n = (if n < 0 then CHR ''-'' # nat_toString (nat (- n)) else nat_toString (nat n))"

text \<open>A non-empty sequence of decimal digits.\<close>

definition digit_string :: "string \<Rightarrow> bool" where
  "digit_string ds \<longleftrightarrow> list_all is_digit ds \<and> ds \<noteq> []"

text \<open>The value of a digit sequence in a radix, most significant digit first.\<close>

definition radix_value :: "nat \<Rightarrow> (char \<Rightarrow> nat) \<Rightarrow> string \<Rightarrow> nat" where
  "radix_value r val ds = foldl (\<lambda>acc c. r * acc + val c) 0 ds"

text \<open>
  \<open>parseInt(s)\<close> with no radix argument: skip leading blanks, read an optional sign, switch to
  radix 16 after a \<open>0x\<close> or \<open>0X\<close> prefix, then read the longest run of digits of the radix and
  ignore the rest. With no digit at all the result is \<open>NaN\<close>.
\<close>

definition parseInt :: "string \<Rightarrow> int option" where
  "parseInt s =
    (let s1 = dropWhile is_space s;
         neg = (take 1 s1 = ''-'');
         s2 = (if take 1 s1 = ''-'' \<or> take 1 s1 = ''+'' then drop 1 s1 else s1);
         hex = (take 2 s2 = ''0x'' \<or> take 2 s2 = ''0X'');
         ds = (if hex then takeWhile is_hex_digit (drop 2 s2) else takeWhile is_digit s2);
         v = (if hex then radix_value 16 hex_val ds else radix_value 10 digit_val ds)
     in if ds = [] then None else Some (if neg then - int v else int v))"

text \<open>Arithmetic on numbers that may be \<open>NaN\<close>: \<open>NaN\<close> propagates.\<close>

definition num_add :: "int option \<Rightarrow> int option \<Rightarrow> int option" where
  "num_add a b = (case (a, b) of (Some x, Some y) \<Rightarrow> Some (x + y) | _ \<Rightarrow> None)"

definition num_mul :: "int option \<Rightarrow> int option \<Rightarrow> int option" where
  "num_mul a b = (case (a, b) of (Some x, Some y) \<Rightarrow> Some (x * y) | _ \<Rightarrow> None)"

definition num_sub :: "int option \<Rightarrow> int option \<Rightarrow> int option" where
  "num_sub a b = (case (a, b) of (Some x, Some y) \<Rightarrow> Some (x - y) | _ \<Rightarrow> None)"

text \<open>\<open>s || d\<close> on strings: the empty string is falsy.\<close>

definition or_else :: "string \<Rightarrow> string \<Rightarrow> string" where
  "or_else s d = (if s = [] then d else s)"

text \<open>\<open>String.prototype.split\<close> with a one-character separator. The result is never empty: the
  empty string splits into one empty part.\<close>

fun split_on :: "char \<Rightarrow> string \<Rightarrow> string list" where
  "split_on sep [] = [[]]"
| "split_on sep (c # cs) =
     (if c = sep then [] # split_on sep cs
      else (case split_on sep cs of
              p # ps \<Rightarrow> (c # p) # ps
            | [] \<Rightarrow> [[c]]))"

text \<open>\<open>Array.prototype.join\<close>.\<close>

fun join :: "string \<Rightarrow> string list \<Rightarrow> string" where
  "join sep [] = []"
| "join sep [x] = x"
| "join sep (x # y # ys) = x @ sep @ join sep (y # ys)"

definition padStart :: "nat \<Rightarrow> char \<Rightarrow> string \<Rightarrow> string" where
  "padStart n c s = replicate (n - length s) c @ s"

definition padEnd :: "nat \<Rightarrow> char \<Rightarrow> string \<Rightarrow> string" where
  "padEnd n c s = s @ replicate (n - length s) c"

text \<open>The remainder operator \<open>%\<close> on integers takes the sign of the dividend; the divisors of the
  program are the constants 3600 and 60.\<close>

definition js_rem :: "int \<Rightarrow> int \<Rightarrow> int" where
  "js_rem a b = sgn a * (\<bar>a\<bar> mod \<bar>b\<bar>)"

section \<open>The time codec\<close>

text \<open>\<open>timeToSeconds\<close>: split at the colons, \<open>parseInt\<close> every part; two parts are minutes and
  seconds, three parts are hours, minutes and seconds, any other number of parts gives 0.\<close>

definition timeToSeconds :: "string \<Rightarrow> int option" where
  "timeToSeconds time =
    (let parts = map parseInt (split_on CHR '':'' time) in
     if length parts = 2 then
       num_add (num_mul (parts ! 0) (Some 60)) (parts ! 1)
     else if length parts = 3 then
       num_add (num_add (num_mul (parts ! 0) (Some 3600)) (num_mul (parts ! 1) (Some 60))) (parts ! 2)
     else Some 0)"

text \<open>\<open>formatSeconds\<close>: \<open>Math.floor\<close> of an integer quotient is \<^term>\<open>(div)\<close> on \<^typ>\<open>int\<close>.\<close>

definition formatSeconds :: "int \<Rightarrow> string" where
  "formatSeconds totalSeconds =
    (let hours = totalSeconds div 3600;
         minutes = js_rem totalSeconds 3600 div 60;
         seconds = js_rem totalSeconds 60
     in if hours > 0 then
          toString hours @ '':'' @ padStart 2 CHR ''0'' (toString minutes) @ '':''
            @ padStart 2 CHR ''0'' (toString seconds)
        else toString minutes @ '':'' @ padStart 2 CHR ''0'' (toString seconds))"


text \<open>
  A number that the player reports need not be an integer: the component stores the result of
  \<open>getDuration()\<close> as it comes. \<open>Whole n\<close> is the integer \<open>n\<close>. \<open>Fractional w txt\<close> is a
  non-integer \<open>x\<close> with \<open>Math.floor(x) = w\<close>, and \<open>txt\<close> is the text that \<open>toString\<close> gives for
  \<open>x % 60\<close>. The digits that \<open>toString\<close> prints for a non-integer follow from its binary
  representation, so the model carries them with the number: 100.5 is \<open>Fractional 100 ''40.5''\<close>,
  and 120.00000000000001 is \<open>Fractional 120 ''1.4210854715202004e-14''\<close>.
\<close>

datatype number = Whole int | Fractional int string

text \<open>\<open>totalSeconds > x\<close> for a total that is an integer or \<open>NaN\<close>, and \<open>x > 0\<close>. A comparison
  with \<open>NaN\<close> is false, and an integer is greater than a non-integer exactly when it is greater
  than its floor.\<close>

definition exceeds :: "int option \<Rightarrow> number \<Rightarrow> bool" where
  "exceeds t x =
     (case t of
        None \<Rightarrow> False
      | Some n \<Rightarrow> (case x of Whole m \<Rightarrow> n > m | Fractional w txt \<Rightarrow> n > w))"

definition is_positive :: "number \<Rightarrow> bool" where
  "is_positive x = (case x of Whole m \<Rightarrow> m > 0 | Fractional w txt \<Rightarrow> w \<ge> 0)"

text \<open>\<open>Math.floor(x % m)\<close> for a non-integer \<open>x\<close> with floor \<open>w\<close> and a positive integer \<open>m\<close>;
  the remainder takes the sign of \<open>x\<close>.\<close>

definition floor_rem :: "int \<Rightarrow> int \<Rightarrow> int" where
  "floor_rem w m = (if 0 \<le> w then w mod m else - ((- (w + 1)) mod m) - 1)"

text \<open>
  \<open>formatSeconds\<close> at a number. At an integer it is the function above. At a non-integer the
  same lines give integer hours and minutes, and the seconds keep the fraction.
\<close>

definition formatSecondsNumber :: "number \<Rightarrow> string" where
  "formatSecondsNumber x =
    (case x of
       Whole n \<Rightarrow> formatSeconds n
     | Fractional w txt \<Rightarrow>
         (let hours = w div 3600;
              minutes = floor_rem w 3600 div 60;
              seconds = txt
          in if hours > 0 then
               toString hours @ '':'' @ padStart 2 CHR ''0'' (toString minutes) @ '':''
                 @ padStart 2 CHR ''0'' seconds
             else toString minutes @ '':'' @ padStart 2 CHR ''0'' seconds))"

text \<open>
  \<open>formatTimeString\<close>, the handler of the time input: drop every character that is neither a
  digit nor a colon, split at the colons, rebuild \<open>m:ss\<close> from at most two parts and \<open>h:m:ss\<close>
  from the first three otherwise, and replace the result by the formatted duration when it lies
  beyond a known duration. The first half of the function, up to the comparison with the
  duration, is \<open>rebuildTime\<close>: it yields the variables \<open>totalSeconds\<close> and \<open>cleaned\<close>. The
  component's \<open>videoDuration\<close> is the second argument of \<open>formatTimeString\<close>.
\<close>

definition rebuildTime :: "string \<Rightarrow> int option \<times> string" where
  "rebuildTime input =
    (let cleaned = filter (\<lambda>c. is_digit c \<or> c = CHR '':'') input;
         parts = split_on CHR '':'' cleaned
     in if length parts \<le> 2 then
          (let minutes = or_else (parts ! 0) ''0'';
               seconds = (if length parts > 1 then take 2 (padEnd 2 CHR ''0'' (parts ! 1))
                          else ''00'')
           in (num_add (num_mul (parseInt minutes) (Some 60)) (parseInt seconds),
               minutes @ '':'' @ seconds))
        else
          (let hours = or_else (parts ! 0) ''0'';
               minutes = or_else (parts ! 1) ''00'';
               seconds = or_else (take 2 (padEnd 2 CHR ''0'' (parts ! 2))) ''00''
           in (num_add (num_add (num_mul (parseInt hours) (Some 3600))
                                (num_mul (parseInt minutes) (Some 60)))
                       (parseInt seconds),
               hours @ '':'' @ minutes @ '':'' @ seconds)))"

definition formatTimeString :: "string \<Rightarrow> number \<Rightarrow> string" where
  "formatTimeString input videoDuration =
    (let (totalSeconds, cleaned) = rebuildTime input
     in if exceeds totalSeconds videoDuration \<and> is_positive videoDuration
        then formatSecondsNumber videoDuration
        else cleaned)"

text \<open>The text of a non-integer of at least \<open>0.000001\<close> whose floor is \<open>w mod 60\<close>: the digits of
  the floor, a point, and the digits of the fraction.\<close>

definition positional_seconds :: "int \<Rightarrow> string \<Rightarrow> bool" where
  "positional_seconds w txt \<longleftrightarrow>
     (\<exists>frac. digit_string frac \<and> txt = toString (w mod 60) @ CHR ''.'' # frac)"

subsection \<open>The commit-time pattern\<close>

text \<open>
  \<open>addTimestamp\<close> tests the typed time against the regular expression
  \<^verbatim>\<open>/^(\d+:)?([0-5]?\d):([0-5]\d)$/\<close>. The pattern uses character classes, sequencing, \<open>?\<close> and
  \<open>+\<close>; it is anchored at both ends and has no flags, so \<open>test\<close> succeeds exactly when the
  whole string belongs to the language of the pattern. Regular expressions are a datatype, matched
  by derivatives.
\<close>

datatype cclass = Digit | Range char char | Lit char

fun in_class :: "cclass \<Rightarrow> char \<Rightarrow> bool" where
  "in_class Digit c = is_digit c"
| "in_class (Range a b) c = ((of_char a :: nat) \<le> of_char c \<and> (of_char c :: nat) \<le> of_char b)"
| "in_class (Lit a) c = (c = a)"

datatype regex = Fail | Eps | Atom cclass | Seq regex regex | Alt regex regex | Star regex

definition Opt :: "regex \<Rightarrow> regex" where
  "Opt r = Alt r Eps"

definition Plus :: "regex \<Rightarrow> regex" where
  "Plus r = Seq r (Star r)"

fun nullable :: "regex \<Rightarrow> bool" where
  "nullable Fail = False"
| "nullable Eps = True"
| "nullable (Atom a) = False"
| "nullable (Seq r s) = (nullable r \<and> nullable s)"
| "nullable (Alt r s) = (nullable r \<or> nullable s)"
| "nullable (Star r) = True"

fun deriv :: "char \<Rightarrow> regex \<Rightarrow> regex" where
  "deriv c Fail = Fail"
| "deriv c Eps = Fail"
| "deriv c (Atom a) = (if in_class a c then Eps else Fail)"
| "deriv c (Seq r s) =
     (if nullable r then Alt (Seq (deriv c r) s) (deriv c s) else Seq (deriv c r) s)"
| "deriv c (Alt r s) = Alt (deriv c r) (deriv c s)"
| "deriv c (Star r) = Seq (deriv c r) (Star r)"

fun regex_test :: "regex \<Rightarrow> string \<Rightarrow> bool" where
  "regex_test r [] = nullable r"
| "regex_test r (c # cs) = regex_test (deriv c r) cs"

definition timeRegex :: regex where
  "timeRegex =
     Seq (Opt (Seq (Plus (Atom Digit)) (Atom (Lit CHR '':''))))
      (Seq (Seq (Opt (Atom (Range CHR ''0'' CHR ''5''))) (Atom Digit))
       (Seq (Atom (Lit CHR '':''))
            (Seq (Atom (Range CHR ''0'' CHR ''5'')) (Atom Digit))))"

text \<open>The language of a regular expression, the reference semantics of the matcher.\<close>

inductive_set star :: "string set \<Rightarrow> string set" for A :: "string set" where
  star_Nil: "[] \<in> star A"
| star_step: "u \<in> A \<Longrightarrow> v \<in> star A \<Longrightarrow> u @ v \<in> star A"

fun lang :: "regex \<Rightarrow> string set" where
  "lang Fail = {}"
| "lang Eps = {[]}"
| "lang (Atom a) = {[c] | c. in_class a c}"
| "lang (Seq r s) = {u @ v | u v. u \<in> lang r \<and> v \<in> lang s}"
| "lang (Alt r s) = lang r \<union> lang s"
| "lang (Star r) = star (lang r)"

text \<open>
  The grammar of a committed time in words: an optional hours prefix of one or more digits and a
  colon, then minutes of one or two digits with a value from 0 to 59, a colon, and seconds of
  exactly two digits with a value from 0 to 59.
\<close>

definition dec_value :: "string \<Rightarrow> nat" where
  "dec_value ds = radix_value 10 digit_val ds"

text \<open>The same grammar character by character, as the pattern reads it.\<close>

definition range05 :: "char \<Rightarrow> bool" where
  "range05 c \<longleftrightarrow> 48 \<le> (of_char c :: nat) \<and> (of_char c :: nat) \<le> 53"

definition minutes_pattern :: "string \<Rightarrow> bool" where
  "minutes_pattern m \<longleftrightarrow>
     (\<exists>a b. m = [a, b] \<and> range05 a \<and> is_digit b) \<or> (\<exists>b. m = [b] \<and> is_digit b)"

definition seconds_pattern :: "string \<Rightarrow> bool" where
  "seconds_pattern x \<longleftrightarrow> (\<exists>a b. x = [a, b] \<and> range05 a \<and> is_digit b)"

definition grammar_minutes :: "string \<Rightarrow> bool" where
  "grammar_minutes m \<longleftrightarrow>
     (length m = 1 \<or> length m = 2) \<and> list_all is_digit m \<and> dec_value m \<le> 59"

definition grammar_seconds :: "string \<Rightarrow> bool" where
  "grammar_seconds s \<longleftrightarrow> length s = 2 \<and> list_all is_digit s \<and> dec_value s \<le> 59"

definition grammar_hours :: "string \<Rightarrow> bool" where
  "grammar_hours h \<longleftrightarrow> h \<noteq> [] \<and> list_all is_digit h"

definition commit_grammar :: "string \<Rightarrow> bool" where
  "commit_grammar t =
     (case split_on CHR '':'' t of
        [m, s] \<Rightarrow> grammar_minutes m \<and> grammar_seconds s
      | [h, m, s] \<Rightarrow> grammar_hours h \<and> grammar_minutes m \<and> grammar_seconds s
      | _ \<Rightarrow> False)"


section \<open>The timestamp list\<close>

text \<open>
  The interfaces \<open>VideoMetadata\<close> and \<open>Timestamp\<close>. The field \<open>id\<close> is written \<open>id'\<close>. The field
  \<open>seconds\<close> is a JavaScript number, the result of \<open>timeToSeconds\<close>.
\<close>

record VideoMetadata =
  title :: string
  thumbnail :: string
  videoId :: string

record Timestamp =
  id' :: string
  time :: string
  description :: string
  seconds :: "int option"

text \<open>
  \<open>Array.prototype.sort\<close> with a comparison function. The standard makes the sort stable and
  reads a \<open>NaN\<close> result of the comparison as 0; with these two rules the result is determined
  whenever the comparison is a consistent order. The model is the stable insertion sort: an element
  moves behind exactly those elements it compares greater than.
\<close>

definition cmp_greater :: "int option \<Rightarrow> bool" where
  "cmp_greater v = (case v of Some n \<Rightarrow> n > 0 | None \<Rightarrow> False)"

fun js_insort :: "('a \<Rightarrow> 'a \<Rightarrow> int option) \<Rightarrow> 'a \<Rightarrow> 'a list \<Rightarrow> 'a list" where
  "js_insort cmp x [] = [x]"
| "js_insort cmp x (y # ys) =
     (if cmp_greater (cmp x y) then y # js_insort cmp x ys else x # y # ys)"

definition js_sort :: "('a \<Rightarrow> 'a \<Rightarrow> int option) \<Rightarrow> 'a list \<Rightarrow> 'a list" where
  "js_sort cmp xs = foldr (js_insort cmp) xs []"

text \<open>The comparison \<open>(a, b) => a.seconds - b.seconds\<close> and the expression
  \<open>timestamps.sort((a, b) => a.seconds - b.seconds)\<close> of the list display and of the export.\<close>

definition bySeconds :: "Timestamp \<Rightarrow> Timestamp \<Rightarrow> int option" where
  "bySeconds a b = num_sub (seconds a) (seconds b)"

definition sortedView :: "Timestamp list \<Rightarrow> Timestamp list" where
  "sortedView ts = js_sort bySeconds ts"

text \<open>The sort key of an entry whose \<open>seconds\<close> is a number.\<close>

definition sec :: "Timestamp \<Rightarrow> int" where
  "sec t = (case seconds t of Some n \<Rightarrow> n | None \<Rightarrow> 0)"

text \<open>The export text: the sorted entries as lines \<open>time - description\<close>, joined by line feeds.\<close>

definition exportLine :: "Timestamp \<Rightarrow> string" where
  "exportLine t = time t @ '' - '' @ description t"

definition exportText :: "Timestamp list \<Rightarrow> string" where
  "exportText ts = join [CHR 0x0A] (map exportLine (sortedView ts))"

text \<open>
  The state of the component, restricted to the variables that the timestamp operations read or
  write. \<open>sort\<close> works in place on the array held in \<open>timestamps\<close>, so an operation that sorts
  returns a state with the sorted array.
\<close>

record app_state =
  metadata :: "VideoMetadata option"
  timestamps :: "Timestamp list"
  currentTime :: string
  currentDescription :: string
  videoDuration :: number

definition initial_state :: app_state where
  "initial_state = \<lparr> metadata = None, timestamps = [], currentTime = ''0:00'',
                     currentDescription = [], videoDuration = Whole 0 \<rparr>"

datatype toast = ToastError string | ToastSuccess string

text \<open>
  \<open>handleSubmit\<close>. The identifier that \<open>extractVideoId\<close> finds in the URL is the second argument
  (\<^term>\<open>None\<close> when the URL has none). A successful load clears the list.
\<close>

definition handleSubmit :: "string \<Rightarrow> string option \<Rightarrow> app_state \<Rightarrow> toast \<times> app_state" where
  "handleSubmit url extracted st =
    (if url = [] then (ToastError ''Please enter a YouTube URL'', st)
     else (case extracted of
             None \<Rightarrow> (ToastError ''Invalid YouTube URL'', st)
           | Some vid \<Rightarrow>
               (ToastSuccess ''Video loaded successfully'',
                st\<lparr> metadata := Some \<lparr> title = ''Sample YouTube Video'',
                        thumbnail = ''https://img.youtube.com/vi/'' @ vid @ ''/maxresdefault.jpg'',
                        videoId = vid \<rparr>,
                    timestamps := [] \<rparr>)))"

text \<open>
  \<open>addTimestamp\<close>. The reading of \<open>Date.now()\<close> is the first argument. Without a loaded video the
  function returns silently; the other outcomes are announced by a toast.
\<close>

definition addTimestamp :: "int \<Rightarrow> app_state \<Rightarrow> toast option \<times> app_state" where
  "addTimestamp now st =
    (if metadata st = None then (None, st)
     else if currentTime st = [] \<or> currentDescription st = [] then
       (Some (ToastError ''Please enter both time and description''), st)
     else if \<not> regex_test timeRegex (currentTime st) then
       (Some (ToastError ''Invalid time format. Please use mm:ss or h:mm:ss''), st)
     else
       (let newTimestamp = \<lparr> id' = toString now, time = currentTime st,
                              description = currentDescription st,
                              seconds = timeToSeconds (currentTime st) \<rparr>
        in (Some (ToastSuccess ''Timestamp added''),
            st\<lparr> timestamps := timestamps st @ [newTimestamp],
                currentDescription := [],
                currentTime := ''0:00'' \<rparr>)))"

definition removeTimestamp :: "string \<Rightarrow> app_state \<Rightarrow> toast \<times> app_state" where
  "removeTimestamp i st =
    (ToastSuccess ''Timestamp removed'',
     st\<lparr> timestamps := filter (\<lambda>ts. id' ts \<noteq> i) (timestamps st) \<rparr>)"

text \<open>
  \<open>captureCurrentTime\<close> of \<open>src/pages/Index.tsx\<close>. The argument is
  \<open>Math.floor(player.getCurrentTime())\<close>, or \<^term>\<open>None\<close> when there is no player.
\<close>

definition captureCurrentTime :: "int option \<Rightarrow> app_state \<Rightarrow> app_state" where
  "captureCurrentTime playerSeconds st =
    (case playerSeconds of
       None \<Rightarrow> st
     | Some currentSeconds \<Rightarrow>
         (let minutes = currentSeconds div 60;
              seconds = js_rem currentSeconds 60
          in st\<lparr> currentTime := toString minutes @ '':'' @ padStart 2 CHR ''0'' (toString seconds) \<rparr>))"

text \<open>\<open>copyToClipboard\<close> returns the toast and the text written to the clipboard, if any.\<close>

definition copyToClipboard :: "app_state \<Rightarrow> (toast \<times> string option) \<times> app_state" where
  "copyToClipboard st =
    (if length (timestamps st) = 0 then ((ToastError ''No timestamps to copy'', None), st)
     else ((ToastSuccess ''Timestamps copied to clipboard!'', Some (exportText (timestamps st))),
           st\<lparr> timestamps := sortedView (timestamps st) \<rparr>))"

text \<open>Rendering shows the list when a video is loaded and the list is not empty; the rows are
  the sorted array.\<close>

definition render :: "app_state \<Rightarrow> Timestamp list \<times> app_state" where
  "render st =
    (if metadata st \<noteq> None \<and> length (timestamps st) > 0
     then (sortedView (timestamps st), st\<lparr> timestamps := sortedView (timestamps st) \<rparr>)
     else ([], st))"

subsection \<open>Runs of the component\<close>

text \<open>
  The events that change the variables above. \<open>SetCurrentTime\<close> stands for every other writer of
  \<open>currentTime\<close> (the capture button, the slider, the arrow keys and the playback timer) and
  \<open>SetVideoDuration\<close> for the player reporting a duration.
\<close>

datatype event =
    Submit string "string option"
  | TypeTime string
  | TypeDescription string
  | SetCurrentTime string
  | SetVideoDuration number
  | AddTimestamp int
  | RemoveTimestamp string
  | CopyToClipboard
  | Render

fun step :: "app_state \<Rightarrow> event \<Rightarrow> app_state" where
  "step st (Submit url extracted) = snd (handleSubmit url extracted st)"
| "step st (TypeTime input) = st\<lparr> currentTime := formatTimeString input (videoDuration st) \<rparr>"
| "step st (TypeDescription d) = st\<lparr> currentDescription := d \<rparr>"
| "step st (SetCurrentTime t) = st\<lparr> currentTime := t \<rparr>"
| "step st (SetVideoDuration d) = st\<lparr> videoDuration := d \<rparr>"
| "step st (AddTimestamp now) = snd (addTimestamp now st)"
| "step st (RemoveTimestamp i) = snd (removeTimestamp i st)"
| "step st CopyToClipboard = snd (copyToClipboard st)"
| "step st Render = snd (render st)"

definition run :: "event list \<Rightarrow> app_state" where
  "run es = foldl step initial_state es"

text \<open>
  The list in insertion order, for reference: the same run with every in-place sort left out, so
  that entries are only appended, removed by identity, or cleared by a load.
\<close>

fun step_unsorted :: "app_state \<Rightarrow> event \<Rightarrow> app_state" where
  "step_unsorted st CopyToClipboard = st"
| "step_unsorted st Render = st"
| "step_unsorted st e = step st e"

definition insertion_order :: "event list \<Rightarrow> Timestamp list" where
  "insertion_order es = timestamps (foldl step_unsorted initial_state es)"

text \<open>The readings of \<open>Date.now()\<close> taken by the successful additions of a run, and the number
  of entries with a given identity.\<close>

fun add_clocks :: "app_state \<Rightarrow> event list \<Rightarrow> int list" where
  "add_clocks st [] = []"
| "add_clocks st (AddTimestamp now # es) =
     (if fst (addTimestamp now st) = Some (ToastSuccess ''Timestamp added'')
      then now # add_clocks (step st (AddTimestamp now)) es
      else add_clocks (step st (AddTimestamp now)) es)"
| "add_clocks st (e # es) = add_clocks (step st e) es"


text \<open>Adding an entry by hand: type the time, type the description, press the button at clock
  reading \<open>now\<close>. The runs below start by loading a video.\<close>

definition add_entry :: "string \<Rightarrow> string \<Rightarrow> int \<Rightarrow> event list" where
  "add_entry t d now = [TypeTime t, TypeDescription d, AddTimestamp now]"

definition load_video :: "event list" where
  "load_video = [Submit ''https://youtu.be/dQw4w9WgXcQ'' (Some ''dQw4w9WgXcQ'')]"

definition run_50_10_10_30 :: "event list" where
  "run_50_10_10_30 =
     load_video @ add_entry ''0:50'' ''a'' 1 @ add_entry ''0:10'' ''b'' 2
       @ add_entry ''0:10'' ''c'' 3 @ add_entry ''0:30'' ''d'' 4"

definition run_intro_hook :: "event list" where
  "run_intro_hook = load_video @ add_entry ''1:05'' ''Intro'' 1 @ add_entry ''0:30'' ''Hook'' 2"

definition run_described :: "event list" where
  "run_described = load_video @ [TypeDescription ''Chapter'']"

definition run_same_clock :: "event list" where
  "run_same_clock = load_video @ add_entry ''0:10'' ''a'' 1000 @ add_entry ''0:20'' ''b'' 1000"

subsection \<open>Predicates on the list\<close>

definition numeric :: "Timestamp list \<Rightarrow> bool" where
  "numeric ts \<longleftrightarrow> list_all (\<lambda>t. seconds t \<noteq> None) ts"

definition valid_entry :: "Timestamp \<Rightarrow> bool" where
  "valid_entry t \<longleftrightarrow> regex_test timeRegex (time t) \<and> seconds t = timeToSeconds (time t)"

text \<open>Two lists hold the same entries, with the entries of every key in the same order.\<close>

definition same_entries :: "Timestamp list \<Rightarrow> Timestamp list \<Rightarrow> bool" where
  "same_entries xs ys \<longleftrightarrow>
     mset xs = mset ys \<and> (\<forall>k. filter (\<lambda>t. sec t = k) xs = filter (\<lambda>t. sec t = k) ys)"

definition same_but_order :: "app_state \<Rightarrow> app_state \<Rightarrow> bool" where
  "same_but_order st u \<longleftrightarrow>
     metadata st = metadata u \<and> currentTime st = currentTime u
     \<and> currentDescription st = currentDescription u \<and> videoDuration st = videoDuration u
     \<and> same_entries (timestamps st) (timestamps u)"

section \<open>Digits, parsing and splitting\<close>

lemma digit_char_is_digit: "d < 10 \<Longrightarrow> is_digit (digit_char d)"
  by (simp add: is_digit_def digit_char_def)

lemma digit_val_digit_char: "d < 10 \<Longrightarrow> digit_val (digit_char d) = d"
  by (simp add: digit_val_def digit_char_def)

lemma is_digit_not_space: "is_digit c \<Longrightarrow> \<not> is_space c"
  by (auto simp: is_digit_def is_space_def)

lemma is_digit_chars:
  "is_digit c \<Longrightarrow> c \<noteq> CHR '':'' \<and> c \<noteq> CHR ''-'' \<and> c \<noteq> CHR ''+'' \<and> c \<noteq> CHR ''x'' \<and> c \<noteq> CHR ''X''"
  by (auto simp: is_digit_def)

lemma radix_value_snoc: "radix_value r v (ds @ [c]) = r * radix_value r v ds + v c"
  by (simp add: radix_value_def)

lemma nat_toString_digits: "list_all is_digit (nat_toString n) \<and> nat_toString n \<noteq> []"
proof (induction n rule: nat_toString.induct)
  case (1 n)
  show ?case
  proof (cases "n < 10")
    case True
    then show ?thesis by (simp add: nat_toString.simps [of n] digit_char_is_digit)
  next
    case False
    with 1 show ?thesis by (simp add: nat_toString.simps [of n] digit_char_is_digit)
  qed
qed

lemma nat_toString_value: "radix_value 10 digit_val (nat_toString n) = n"
proof (induction n rule: nat_toString.induct)
  case (1 n)
  show ?case
  proof (cases "n < 10")
    case True
    then show ?thesis by (simp add: nat_toString.simps [of n] radix_value_def digit_val_digit_char)
  next
    case False
    with 1 show ?thesis
      by (simp add: nat_toString.simps [of n] radix_value_snoc digit_val_digit_char)
  qed
qed

lemma parseInt_digits:
  assumes "list_all is_digit ds" "ds \<noteq> []"
  shows "parseInt ds = Some (int (radix_value 10 digit_val ds))"
proof -
  obtain c cs where ds: "ds = c # cs" using assms(2) by (cases ds) auto
  have c: "is_digit c" using assms(1) ds by simp
  have 1: "dropWhile is_space ds = ds" using c ds is_digit_not_space by simp
  have 2: "take 1 ds \<noteq> ''-''" "take 1 ds \<noteq> ''+''" using c ds is_digit_chars by auto
  have 3: "take 2 ds \<noteq> ''0x''" "take 2 ds \<noteq> ''0X''"
    using assms(1) ds is_digit_chars by (cases cs; auto)+
  have 4: "takeWhile is_digit ds = ds" using assms(1) by (simp add: list_all_iff)
  show ?thesis by (simp add: parseInt_def Let_def 1 2 3 4 assms(2) del: One_nat_def)
qed

lemma parseInt_nat_toString: "parseInt (nat_toString n) = Some (int n)"
  using parseInt_digits [of "nat_toString n"] nat_toString_digits [of n]
  by (simp add: nat_toString_value)

lemma split_on_not_Nil: "split_on sep s \<noteq> []"
  by (induction s) (auto split: list.splits)

lemma split_on_no_sep: "sep \<notin> set a \<Longrightarrow> split_on sep a = [a]"
  by (induction a) auto

lemma split_on_append: "sep \<notin> set a \<Longrightarrow> split_on sep (a @ sep # b) = a # split_on sep b"
  by (induction a) (auto split: list.splits simp: split_on_not_Nil)

lemma digit_string_no_colon: "digit_string ds \<Longrightarrow> CHR '':'' \<notin> set ds"
  using is_digit_chars by (auto simp: digit_string_def list_all_iff)

lemma parseInt_digit_string:
  "digit_string ds \<Longrightarrow> parseInt ds = Some (int (radix_value 10 digit_val ds))"
  using parseInt_digits by (simp add: digit_string_def)

lemma timeToSeconds_ms:
  assumes "digit_string m" "digit_string s"
  shows "timeToSeconds (m @ CHR '':'' # s)
         = Some (int (radix_value 10 digit_val m) * 60 + int (radix_value 10 digit_val s))"
  using assms
  by (simp add: timeToSeconds_def split_on_append split_on_no_sep digit_string_no_colon
      parseInt_digit_string num_add_def num_mul_def)

lemma timeToSeconds_hms:
  assumes "digit_string h" "digit_string m" "digit_string s"
  shows "timeToSeconds (h @ CHR '':'' # m @ CHR '':'' # s)
         = Some (int (radix_value 10 digit_val h) * 3600 + int (radix_value 10 digit_val m) * 60
                 + int (radix_value 10 digit_val s))"
  using assms
  by (simp add: timeToSeconds_def split_on_append split_on_no_sep digit_string_no_colon
      parseInt_digit_string num_add_def num_mul_def)

lemma digit_string_nat_toString: "digit_string (nat_toString n)"
  using nat_toString_digits by (simp add: digit_string_def)

lemma toString_nonneg: "0 \<le> n \<Longrightarrow> toString n = nat_toString (nat n)"
  by (simp add: toString_def)

lemma radix_value_zero_Cons: "radix_value 10 digit_val (CHR ''0'' # ds) = radix_value 10 digit_val ds"
  by (simp add: radix_value_def digit_val_def)

lemma is_digit_zero: "is_digit CHR ''0''"
  by (simp add: is_digit_def)

lemma digit_string_padStart:
  "digit_string ds \<Longrightarrow> digit_string (padStart 2 CHR ''0'' ds)"
  by (auto simp: digit_string_def padStart_def list_all_iff is_digit_zero)

lemma radix_value_replicate_zero:
  "radix_value 10 digit_val (replicate k CHR ''0'' @ ds) = radix_value 10 digit_val ds"
  by (induction k) (simp_all add: radix_value_zero_Cons)

lemma radix_value_padStart:
  "radix_value 10 digit_val (padStart n CHR ''0'' ds) = radix_value 10 digit_val ds"
  by (simp add: padStart_def radix_value_replicate_zero)

lemma js_rem_nonneg: "0 \<le> a \<Longrightarrow> 0 < b \<Longrightarrow> js_rem a b = a mod b"
  by (cases "a = 0") (simp_all add: js_rem_def)

lemma hms_decompose: "(s::int) div 3600 * 3600 + s mod 3600 div 60 * 60 + s mod 60 = s"
proof -
  have "s mod 60 = s mod 3600 mod 60" by (simp add: mod_mod_cancel)
  then have "s mod 3600 div 60 * 60 + s mod 60 = s mod 3600" by simp
  moreover have "s div 3600 * 3600 + s mod 3600 = s" by simp
  ultimately show ?thesis by linarith
qed

lemma ms_decompose: "0 \<le> s \<Longrightarrow> \<not> 0 < (s::int) div 3600 \<Longrightarrow> s mod 3600 div 60 * 60 + s mod 60 = s"
proof -
  assume "0 \<le> s" "\<not> 0 < s div 3600"
  then have "s div 3600 = 0" using pos_imp_zdiv_nonneg_iff [of 3600 s] by linarith
  then show ?thesis using hms_decompose [of s] by simp
qed


lemma formatSeconds_nonneg:
  assumes "0 \<le> s"
  shows "formatSeconds s =
    (if 0 < s div 3600 then
       nat_toString (nat (s div 3600)) @ CHR '':'' #
       padStart 2 CHR ''0'' (nat_toString (nat (s mod 3600 div 60))) @ CHR '':'' #
       padStart 2 CHR ''0'' (nat_toString (nat (s mod 60)))
     else nat_toString (nat (s mod 3600 div 60)) @ CHR '':'' #
       padStart 2 CHR ''0'' (nat_toString (nat (s mod 60))))"
proof -
  have "0 \<le> s mod 3600 div 60" "0 \<le> s mod 60" "0 \<le> s div 3600"
    using assms by (simp_all add: pos_imp_zdiv_nonneg_iff)
  then show ?thesis
    by (simp add: formatSeconds_def Let_def js_rem_nonneg assms toString_nonneg)
qed

lemma formatSeconds_roundtrip_nonneg:
  assumes "0 \<le> s"
  shows "timeToSeconds (formatSeconds s) = Some s"
proof (cases "0 < s div 3600")
  case True
  have "timeToSeconds (formatSeconds s)
        = Some (int (nat (s div 3600)) * 3600 + int (nat (s mod 3600 div 60)) * 60
                + int (nat (s mod 60)))"
    using True
    by (simp only: formatSeconds_nonneg [OF assms] if_True)
       (simp only: timeToSeconds_hms digit_string_nat_toString digit_string_padStart
          nat_toString_value radix_value_padStart)
  also have "\<dots> = Some s"
    using assms hms_decompose [of s] by (simp add: pos_imp_zdiv_nonneg_iff)
  finally show ?thesis .
next
  case False
  have "timeToSeconds (formatSeconds s)
        = Some (int (nat (s mod 3600 div 60)) * 60 + int (nat (s mod 60)))"
    using False
    by (simp only: formatSeconds_nonneg [OF assms] if_False)
       (simp only: timeToSeconds_ms digit_string_nat_toString digit_string_padStart
          nat_toString_value radix_value_padStart)
  also have "\<dots> = Some s"
    using assms ms_decompose [OF assms False] by (simp add: pos_imp_zdiv_nonneg_iff)
  finally show ?thesis .
qed

text \<open>
  C1. For every integer \<open>s\<close> from 0 to 359999, parsing the formatted time gives \<open>s\<close> back:
  \<open>timeToSeconds (formatSeconds s) = s\<close>, and the result is a number, not \<open>NaN\<close>.
\<close>

theorem C1_format_parse_roundtrip:
  "0 \<le> s \<Longrightarrow> s \<le> 359999 \<Longrightarrow> timeToSeconds (formatSeconds s) = Some s"
  by (rule formatSeconds_roundtrip_nonneg)

theorem C1_format_parse_roundtrip_witness:
  "(0::int) \<le> 3661 \<and> (3661::int) \<le> 359999 \<and> timeToSeconds (formatSeconds 3661) = Some 3661"
  using C1_format_parse_roundtrip [of 3661] by simp

section \<open>The matcher and the language of the pattern\<close>

lemma nullable_iff: "nullable r \<longleftrightarrow> [] \<in> lang r"
  by (induction r) (auto intro: star.star_Nil)

lemma star_Cons_iff:
  "c # w \<in> star A \<longleftrightarrow> (\<exists>u v. w = u @ v \<and> c # u \<in> A \<and> v \<in> star A)"
proof
  assume "c # w \<in> star A"
  then have "\<And>x. x \<in> star A \<Longrightarrow> x = c # w \<Longrightarrow> \<exists>u v. w = u @ v \<and> c # u \<in> A \<and> v \<in> star A"
  proof -
    fix x assume "x \<in> star A" "x = c # w"
    then show "\<exists>u v. w = u @ v \<and> c # u \<in> A \<and> v \<in> star A"
    proof (induction rule: star.induct)
      case star_Nil
      then show ?case by simp
    next
      case (star_step u v)
      show ?case
      proof (cases u)
        case Nil
        with star_step show ?thesis by simp
      next
        case (Cons a u')
        with star_step have "a = c" "w = u' @ v" by auto
        with Cons star_step show ?thesis by blast
      qed
    qed
  qed
  with \<open>c # w \<in> star A\<close> show "\<exists>u v. w = u @ v \<and> c # u \<in> A \<and> v \<in> star A" by blast
next
  assume "\<exists>u v. w = u @ v \<and> c # u \<in> A \<and> v \<in> star A"
  then obtain u v where "w = u @ v" "c # u \<in> A" "v \<in> star A" by blast
  then show "c # w \<in> star A" using star.star_step [of "c # u" A v] by simp
qed

lemma lang_deriv: "w \<in> lang (deriv c r) \<longleftrightarrow> c # w \<in> lang r"
proof (induction r arbitrary: w)
  case (Seq r1 r2)
  have "c # w \<in> lang (Seq r1 r2) \<longleftrightarrow>
        (\<exists>u v. w = u @ v \<and> c # u \<in> lang r1 \<and> v \<in> lang r2) \<or> ([] \<in> lang r1 \<and> c # w \<in> lang r2)"
    by (auto simp: Cons_eq_append_conv) 
  with Seq show ?case by (auto simp: nullable_iff)
next
  case (Star r)
  then show ?case by (auto simp: star_Cons_iff)
qed auto

lemma regex_test_lang: "regex_test r s \<longleftrightarrow> s \<in> lang r"
  by (induction s arbitrary: r) (simp_all add: nullable_iff lang_deriv)

lemma star_atoms: "w \<in> star {[c] | c. P c} \<longleftrightarrow> list_all P w"
proof (induction w)
  case Nil
  show ?case by (simp add: star.star_Nil)
next
  case (Cons a w)
  show ?case using Cons by (auto simp: star_Cons_iff)
qed

lemma lang_Seq_iff: "w \<in> lang (Seq r s) \<longleftrightarrow> (\<exists>u v. w = u @ v \<and> u \<in> lang r \<and> v \<in> lang s)"
  by auto

lemma lang_Seq_Atom:
  "w \<in> lang (Seq (Atom a) s) \<longleftrightarrow> (\<exists>c v. w = c # v \<and> in_class a c \<and> v \<in> lang s)"
proof
  assume "w \<in> lang (Seq (Atom a) s)"
  then show "\<exists>c v. w = c # v \<and> in_class a c \<and> v \<in> lang s" by auto
next
  assume "\<exists>c v. w = c # v \<and> in_class a c \<and> v \<in> lang s"
  then obtain c v where "w = [c] @ v" "[c] \<in> lang (Atom a)" "v \<in> lang s" by auto
  then show "w \<in> lang (Seq (Atom a) s)" unfolding lang_Seq_iff by blast
qed

lemma lang_Atom_iff: "w \<in> lang (Atom a) \<longleftrightarrow> (\<exists>c. w = [c] \<and> in_class a c)"
  by auto

lemma lang_Seq_Opt: "w \<in> lang (Seq (Opt r) s) \<longleftrightarrow> w \<in> lang (Seq r s) \<or> w \<in> lang s"
  by (auto simp: Opt_def)

lemma lang_Plus_Digit: "w \<in> lang (Plus (Atom Digit)) \<longleftrightarrow> digit_string w"
proof -
  have "w \<in> lang (Plus (Atom Digit)) \<longleftrightarrow>
        (\<exists>c v. w = c # v \<and> is_digit c \<and> v \<in> star {[c] | c. is_digit c})"
    unfolding Plus_def lang_Seq_Atom by simp
  then show ?thesis by (cases w) (auto simp: star_atoms digit_string_def)
qed

lemma in_class_Range05: "in_class (Range CHR ''0'' CHR ''5'') c \<longleftrightarrow> range05 c"
  by (simp add: range05_def)

lemma lang_seconds:
  "x \<in> lang (Seq (Atom (Range CHR ''0'' CHR ''5'')) (Atom Digit)) \<longleftrightarrow> seconds_pattern x"
  unfolding seconds_pattern_def lang_Seq_Atom lang_Atom_iff in_class_Range05
  by auto

lemma lang_minutes:
  "m \<in> lang (Seq (Opt (Atom (Range CHR ''0'' CHR ''5''))) (Atom Digit)) \<longleftrightarrow> minutes_pattern m"
  unfolding minutes_pattern_def lang_Seq_Opt lang_Seq_Atom lang_Atom_iff in_class_Range05
  by auto

lemma lang_hours_prefix:
  "h \<in> lang (Opt (Seq (Plus (Atom Digit)) (Atom (Lit CHR '':'')))) \<longleftrightarrow>
     h = [] \<or> (\<exists>ds. digit_string ds \<and> h = ds @ '':'')"
proof -
  have "h \<in> lang (Seq (Plus (Atom Digit)) (Atom (Lit CHR '':''))) \<longleftrightarrow>
        (\<exists>ds. digit_string ds \<and> h = ds @ '':'')"
    unfolding lang_Seq_iff [of h] lang_Plus_Digit lang_Atom_iff by auto
  then show ?thesis by (auto simp: Opt_def)
qed

lemma lang_timeRegex:
  "t \<in> lang timeRegex \<longleftrightarrow>
     (\<exists>m x. t = m @ CHR '':'' # x \<and> minutes_pattern m \<and> seconds_pattern x) \<or>
     (\<exists>h m x. t = h @ CHR '':'' # m @ CHR '':'' # x \<and> digit_string h \<and> minutes_pattern m
        \<and> seconds_pattern x)"
proof -
  let ?H = "Opt (Seq (Plus (Atom Digit)) (Atom (Lit CHR '':'')))"
  let ?M = "Seq (Opt (Atom (Range CHR ''0'' CHR ''5''))) (Atom Digit)"
  let ?S = "Seq (Atom (Range CHR ''0'' CHR ''5'')) (Atom Digit)"
  have tail: "w \<in> lang (Seq ?M (Seq (Atom (Lit CHR '':'')) ?S)) \<longleftrightarrow>
      (\<exists>m x. w = m @ CHR '':'' # x \<and> minutes_pattern m \<and> seconds_pattern x)" for w
  proof -
    have "w \<in> lang (Seq ?M (Seq (Atom (Lit CHR '':'')) ?S)) \<longleftrightarrow>
          (\<exists>m v. w = m @ v \<and> m \<in> lang ?M \<and> (\<exists>c x. v = c # x \<and> c = CHR '':'' \<and> x \<in> lang ?S))"
      unfolding lang_Seq_iff [of w] lang_Seq_Atom [of _ "Lit CHR '':''"] by simp
    then show ?thesis
      unfolding lang_minutes lang_seconds by auto
  qed
  have "t \<in> lang timeRegex \<longleftrightarrow>
        (\<exists>h w. t = h @ w \<and> h \<in> lang ?H \<and> w \<in> lang (Seq ?M (Seq (Atom (Lit CHR '':'')) ?S)))"
    unfolding timeRegex_def lang_Seq_iff [of t] by simp
  also have "\<dots> \<longleftrightarrow> (\<exists>h w. t = h @ w \<and> (h = [] \<or> (\<exists>ds. digit_string ds \<and> h = ds @ '':''))
        \<and> (\<exists>m x. w = m @ CHR '':'' # x \<and> minutes_pattern m \<and> seconds_pattern x))"
    unfolding lang_hours_prefix tail by simp
  also have "\<dots> \<longleftrightarrow> (\<exists>m x. t = m @ CHR '':'' # x \<and> minutes_pattern m \<and> seconds_pattern x) \<or>
     (\<exists>h m x. t = h @ CHR '':'' # m @ CHR '':'' # x \<and> digit_string h \<and> minutes_pattern m
        \<and> seconds_pattern x)"
    (is "?L \<longleftrightarrow> ?A \<or> ?B")
  proof
    assume ?L
    then show "?A \<or> ?B" by auto
  next
    assume "?A \<or> ?B"
    then show ?L
    proof
      assume ?A
      then obtain m x where "t = [] @ (m @ CHR '':'' # x)" "minutes_pattern m" "seconds_pattern x"
        by auto
      then show ?L by blast
    next
      assume ?B
      then obtain h m x where "t = (h @ '':'') @ (m @ CHR '':'' # x)" "digit_string h"
        "minutes_pattern m" "seconds_pattern x"
        by auto
      then show ?L by blast
    qed
  qed
  finally show ?thesis .
qed

section \<open>The pattern and the grammar in words\<close>

lemma dec_value_one: "dec_value [b] = digit_val b"
  by (simp add: dec_value_def radix_value_def)

lemma dec_value_two: "dec_value [a, b] = 10 * digit_val a + digit_val b"
  by (simp add: dec_value_def radix_value_def)

lemma grammar_seconds_iff: "grammar_seconds x \<longleftrightarrow> seconds_pattern x"
proof
  assume g: "grammar_seconds x"
  then obtain a b where x: "x = [a, b]"
    by (cases x; cases "tl x") (auto simp: grammar_seconds_def)
  with g show "seconds_pattern x"
    by (auto simp: grammar_seconds_def seconds_pattern_def range05_def dec_value_two
        is_digit_def digit_val_def)
next
  assume "seconds_pattern x"
  then show "grammar_seconds x"
    by (auto simp: grammar_seconds_def seconds_pattern_def range05_def dec_value_two
        is_digit_def digit_val_def)
qed

lemma grammar_minutes_iff: "grammar_minutes m \<longleftrightarrow> minutes_pattern m"
proof
  assume g: "grammar_minutes m"
  then consider (one) b where "m = [b]" | (two) a b where "m = [a, b]"
    by (cases m; cases "tl m") (auto simp: grammar_minutes_def)
  then show "minutes_pattern m"
  proof cases
    case one
    with g show ?thesis by (simp add: grammar_minutes_def minutes_pattern_def)
  next
    case two
    with g show ?thesis
      by (auto simp: grammar_minutes_def minutes_pattern_def range05_def dec_value_two
          is_digit_def digit_val_def)
  qed
next
  assume "minutes_pattern m"
  then show "grammar_minutes m"
    by (auto simp: grammar_minutes_def minutes_pattern_def range05_def dec_value_two
        dec_value_one is_digit_def digit_val_def)
qed

lemma join_Cons_Cons: "join sep ((c # p) # ps) = c # join sep (p # ps)"
  by (cases ps) simp_all

lemma join_split_on: "join [sep] (split_on sep s) = s"
proof (induction s)
  case Nil
  show ?case by simp
next
  case (Cons c cs)
  obtain p ps where sp: "split_on sep cs = p # ps"
    using split_on_not_Nil [of sep cs] by (cases "split_on sep cs") auto
  with Cons show ?case by (simp add: join_Cons_Cons)
qed

lemma split_on_two: "split_on sep t = [m, x] \<Longrightarrow> t = m @ sep # x"
  using join_split_on [of sep t] by simp

lemma split_on_three: "split_on sep t = [h, m, x] \<Longrightarrow> t = h @ sep # m @ sep # x"
  using join_split_on [of sep t] by simp

lemma minutes_pattern_digits: "minutes_pattern m \<Longrightarrow> digit_string m"
  by (auto simp: minutes_pattern_def digit_string_def range05_def is_digit_def)

lemma seconds_pattern_digits: "seconds_pattern x \<Longrightarrow> digit_string x"
  by (auto simp: seconds_pattern_def digit_string_def range05_def is_digit_def)

lemma commit_grammar_iff_lang: "commit_grammar t \<longleftrightarrow> t \<in> lang timeRegex"
proof
  assume cg: "commit_grammar t"
  then consider (two) m x where "split_on CHR '':'' t = [m, x]" "grammar_minutes m" "grammar_seconds x"
    | (three) h m x where "split_on CHR '':'' t = [h, m, x]" "grammar_hours h" "grammar_minutes m"
        "grammar_seconds x"
    by (auto simp: commit_grammar_def split: list.splits)
  then show "t \<in> lang timeRegex"
  proof cases
    case two
    then have "t = m @ CHR '':'' # x \<and> minutes_pattern m \<and> seconds_pattern x"
      using split_on_two [of "CHR '':''" t m x]
      by (simp add: grammar_minutes_iff grammar_seconds_iff)
    then show ?thesis
      unfolding lang_timeRegex by blast
  next
    case three
    then have "t = h @ CHR '':'' # m @ CHR '':'' # x \<and> digit_string h \<and> minutes_pattern m
        \<and> seconds_pattern x"
      using split_on_three [of "CHR '':''" t h m x]
      by (simp add: grammar_minutes_iff grammar_seconds_iff grammar_hours_def digit_string_def)
    then show ?thesis
      unfolding lang_timeRegex by blast
  qed
next
  assume "t \<in> lang timeRegex"
  then consider (two) m x where "t = m @ CHR '':'' # x" "minutes_pattern m" "seconds_pattern x"
    | (three) h m x where "t = h @ CHR '':'' # m @ CHR '':'' # x" "digit_string h"
        "minutes_pattern m" "seconds_pattern x"
    unfolding lang_timeRegex by blast
  then show "commit_grammar t"
  proof cases
    case two
    then have "split_on CHR '':'' t = [m, x]"
      by (simp add: split_on_append split_on_no_sep digit_string_no_colon
          minutes_pattern_digits seconds_pattern_digits)
    with two show ?thesis
      by (simp add: commit_grammar_def grammar_minutes_iff grammar_seconds_iff)
  next
    case three
    then have "split_on CHR '':'' t = [h, m, x]"
      by (simp add: split_on_append split_on_no_sep digit_string_no_colon
          minutes_pattern_digits seconds_pattern_digits)
    with three show ?thesis
      by (simp add: commit_grammar_def grammar_minutes_iff grammar_seconds_iff grammar_hours_def
          digit_string_def)
  qed
qed

lemma timeRegex_test_iff: "regex_test timeRegex t \<longleftrightarrow> commit_grammar t"
  by (simp add: regex_test_lang commit_grammar_iff_lang)

text \<open>
  C3. The commit-time check accepts exactly the strings of the grammar: an optional hours prefix
  (one or more digits and a colon), minutes of one or two digits with a value from 0 to 59, a
  colon, and seconds of exactly two digits with a value from 0 to 59. It rejects \<open>60:00\<close> and
  \<open>1:2\<close> and accepts \<open>12:34\<close> and \<open>1:12:34\<close>.
\<close>

theorem C3_commit_check_is_grammar:
  "(regex_test timeRegex t \<longleftrightarrow> commit_grammar t)
   \<and> \<not> regex_test timeRegex ''60:00'' \<and> \<not> regex_test timeRegex ''1:2''
   \<and> regex_test timeRegex ''12:34'' \<and> regex_test timeRegex ''1:12:34''"
proof -
  have "\<not> regex_test timeRegex ''60:00''" by code_simp
  moreover have "\<not> regex_test timeRegex ''1:2''" by code_simp
  moreover have "regex_test timeRegex ''12:34''" by code_simp
  moreover have "regex_test timeRegex ''1:12:34''" by code_simp
  ultimately show ?thesis by (simp add: timeRegex_test_iff)
qed

theorem C3_commit_check_is_grammar_witness:
  "regex_test timeRegex ''1:12:34'' \<and> commit_grammar ''1:12:34'' \<and> \<not> commit_grammar ''60:00''"
  using C3_commit_check_is_grammar [of "''1:12:34''"] C3_commit_check_is_grammar [of "''60:00''"]
  by blast

section \<open>Formatted times pass the commit-time check\<close>

lemma nat_toString_lt10: "n < 10 \<Longrightarrow> nat_toString n = [digit_char n]"
  by (simp add: nat_toString.simps [of n])

lemma nat_toString_lt100:
  "10 \<le> n \<Longrightarrow> n < 100 \<Longrightarrow> nat_toString n = [digit_char (n div 10), digit_char (n mod 10)]"
  by (simp add: nat_toString.simps [of n] nat_toString_lt10)

lemma range05_digit_char: "k \<le> 5 \<Longrightarrow> range05 (digit_char k)"
  by (simp add: range05_def digit_char_def)

lemma range05_zero: "range05 CHR ''0''"
  by (simp add: range05_def)

lemma seconds_pattern_padStart:
  assumes "n < 60"
  shows "seconds_pattern (padStart 2 CHR ''0'' (nat_toString n))"
proof (cases "n < 10")
  case True
  then show ?thesis
    by (simp add: nat_toString_lt10 padStart_def seconds_pattern_def range05_zero
        digit_char_is_digit)
next
  case False
  then have "n div 10 \<le> 5" "n mod 10 < 10" using assms by simp_all
  with False assms show ?thesis
    by (simp add: nat_toString_lt100 padStart_def seconds_pattern_def range05_digit_char
        digit_char_is_digit)
qed

lemma minutes_pattern_padStart:
  "n < 60 \<Longrightarrow> minutes_pattern (padStart 2 CHR ''0'' (nat_toString n))"
  using seconds_pattern_padStart [of n] by (simp add: minutes_pattern_def seconds_pattern_def)

lemma minutes_pattern_nat_toString:
  assumes "n < 60"
  shows "minutes_pattern (nat_toString n)"
proof (cases "n < 10")
  case True
  then show ?thesis
    by (simp add: nat_toString_lt10 minutes_pattern_def digit_char_is_digit)
next
  case False
  then have "n div 10 \<le> 5" "n mod 10 < 10" using assms by simp_all
  with False assms show ?thesis
    by (simp add: nat_toString_lt100 minutes_pattern_def range05_digit_char digit_char_is_digit)
qed

lemma formatSeconds_accepted:
  assumes "0 \<le> s"
  shows "regex_test timeRegex (formatSeconds s)"
proof -
  have m: "nat (s mod 3600 div 60) < 60" and x: "nat (s mod 60) < 60"
    using assms by simp_all
  show ?thesis
  proof (cases "0 < s div 3600")
    case True
    then have "formatSeconds s = nat_toString (nat (s div 3600)) @ CHR '':'' #
       padStart 2 CHR ''0'' (nat_toString (nat (s mod 3600 div 60))) @ CHR '':'' #
       padStart 2 CHR ''0'' (nat_toString (nat (s mod 60)))"
      by (simp add: formatSeconds_nonneg [OF assms])
    then have "formatSeconds s \<in> lang timeRegex"
      unfolding lang_timeRegex
      using digit_string_nat_toString minutes_pattern_padStart [OF m]
        seconds_pattern_padStart [OF x] by blast
    then show ?thesis by (simp add: regex_test_lang)
  next
    case False
    then have "formatSeconds s = nat_toString (nat (s mod 3600 div 60)) @ CHR '':'' #
       padStart 2 CHR ''0'' (nat_toString (nat (s mod 60)))"
      by (simp add: formatSeconds_nonneg [OF assms])
    then have "formatSeconds s \<in> lang timeRegex"
      unfolding lang_timeRegex
      using minutes_pattern_nat_toString [OF m] seconds_pattern_padStart [OF x] by blast
    then show ?thesis by (simp add: regex_test_lang)
  qed
qed

lemma split_on_parts: "p \<in> set (split_on sep s) \<Longrightarrow> set p \<subseteq> set s - {sep}"
proof (induction s arbitrary: p)
  case Nil
  then show ?case by simp
next
  case (Cons c cs)
  obtain q qs where sp: "split_on sep cs = q # qs"
    using split_on_not_Nil [of sep cs] by (cases "split_on sep cs") auto
  show ?case
  proof (cases "c = sep")
    case True
    with Cons show ?thesis by (auto split: if_splits)
  next
    case False
    with Cons.prems sp have "p = c # q \<or> p \<in> set qs" by auto
    then show ?thesis
    proof
      assume "p = c # q"
      moreover have "set q \<subseteq> set cs - {sep}" using Cons.IH [of q] sp by simp
      ultimately show ?thesis using False by auto
    next
      assume "p \<in> set qs"
      then have "set p \<subseteq> set cs - {sep}" using Cons.IH [of p] sp by simp
      then show ?thesis by auto
    qed
  qed
qed

lemma cleaned_parts_digits:
  assumes "p \<in> set (split_on CHR '':'' (filter (\<lambda>c. is_digit c \<or> c = CHR '':'') input))"
  shows "list_all is_digit p"
  using split_on_parts [OF assms] by (auto simp: list_all_iff)

lemma digit_string_or_else:
  "list_all is_digit p \<Longrightarrow> digit_string d \<Longrightarrow> digit_string (or_else p d)"
  by (simp add: or_else_def digit_string_def)

lemma digit_string_take_padEnd:
  "list_all is_digit p \<Longrightarrow> digit_string (take 2 (padEnd 2 CHR ''0'' p))"
  by (cases p; cases "tl p") (auto simp: digit_string_def padEnd_def is_digit_zero list_all_iff
      dest: in_set_takeD)

lemma digit_string_zeros: "digit_string ''0''" "digit_string ''00''"
  by (simp_all add: digit_string_def is_digit_zero)

lemma rebuildTime_consistent:
  "\<exists>n. fst (rebuildTime input) = Some n \<and> timeToSeconds (snd (rebuildTime input)) = Some n"
proof -
  let ?parts = "split_on CHR '':'' (filter (\<lambda>c. is_digit c \<or> c = CHR '':'') input)"
  have ne: "?parts \<noteq> []" by (rule split_on_not_Nil)
  have dig: "i < length ?parts \<Longrightarrow> list_all is_digit (?parts ! i)" for i
    using cleaned_parts_digits [of "?parts ! i" input] by simp
  show ?thesis
  proof (cases "length ?parts \<le> 2")
    case True
    let ?m = "or_else (?parts ! 0) ''0''"
    let ?s = "if length ?parts > 1 then take 2 (padEnd 2 CHR ''0'' (?parts ! 1)) else ''00''"
    have m: "digit_string ?m" using dig [of 0] ne by (simp add: digit_string_or_else digit_string_zeros)
    have s: "digit_string ?s" using dig [of 1] by (simp add: digit_string_take_padEnd digit_string_zeros)
    have "rebuildTime input =
      (num_add (num_mul (parseInt ?m) (Some 60)) (parseInt ?s), ?m @ CHR '':'' # ?s)"
      using True by (simp add: rebuildTime_def Let_def)
    then show ?thesis
      using m s by (simp add: timeToSeconds_ms parseInt_digit_string num_add_def num_mul_def)
  next
    case False
    let ?h = "or_else (?parts ! 0) ''0''"
    let ?m = "or_else (?parts ! 1) ''00''"
    let ?s = "or_else (take 2 (padEnd 2 CHR ''0'' (?parts ! 2))) ''00''"
    have h: "digit_string ?h" using dig [of 0] ne by (simp add: digit_string_or_else digit_string_zeros)
    have m: "digit_string ?m" using dig [of 1] False by (simp add: digit_string_or_else digit_string_zeros)
    have "digit_string (take 2 (padEnd 2 CHR ''0'' (?parts ! 2)))"
      using dig [of 2] False by (simp add: digit_string_take_padEnd)
    then have s: "digit_string ?s" by (simp add: or_else_def digit_string_def)
    have "rebuildTime input =
      (num_add (num_add (num_mul (parseInt ?h) (Some 3600)) (num_mul (parseInt ?m) (Some 60)))
         (parseInt ?s), ?h @ CHR '':'' # ?m @ CHR '':'' # ?s)"
      using False by (simp add: rebuildTime_def Let_def)
    then show ?thesis
      using h m s by (simp add: timeToSeconds_hms parseInt_digit_string num_add_def num_mul_def)
  qed
qed

lemma formatTimeString_result:
  "formatTimeString input d =
     (if exceeds (fst (rebuildTime input)) d \<and> is_positive d then formatSecondsNumber d
      else snd (rebuildTime input))"
  by (simp add: formatTimeString_def split_beta)

lemma formatTimeString_clamped:
  assumes "0 < d"
  shows "\<exists>n. timeToSeconds (formatTimeString input (Whole d)) = Some n \<and> n \<le> d"
proof -
  obtain n where n: "fst (rebuildTime input) = Some n"
    "timeToSeconds (snd (rebuildTime input)) = Some n"
    using rebuildTime_consistent by blast
  show ?thesis
  proof (cases "n > d")
    case True
    then have "formatTimeString input (Whole d) = formatSeconds d"
      using n assms
      by (simp add: formatTimeString_result exceeds_def is_positive_def formatSecondsNumber_def)
    then show ?thesis using assms by (simp add: formatSeconds_roundtrip_nonneg)
  next
    case False
    then have "formatTimeString input (Whole d) = snd (rebuildTime input)"
      using n by (simp add: formatTimeString_result exceeds_def)
    then show ?thesis using n False by simp
  qed
qed

lemma formatTimeString_unknown_duration:
  "formatTimeString input (Whole 0) = snd (rebuildTime input)"
  by (simp add: formatTimeString_result is_positive_def)

lemma rebuildTime_minutes_00:
  assumes "digit_string ds"
  shows "snd (rebuildTime (ds @ '':00'')) = ds @ '':00''"
proof -
  have f: "filter (\<lambda>c. is_digit c \<or> c = CHR '':'') (ds @ '':00'') = ds @ '':00''"
    using assms by (simp add: digit_string_def list_all_iff is_digit_zero)
  have sp: "split_on CHR '':'' (ds @ '':00'') = [ds, ''00'']"
    using assms by (simp add: split_on_append digit_string_no_colon is_digit_chars)
  show ?thesis
    unfolding rebuildTime_def Let_def f sp
    using assms by (simp add: or_else_def padEnd_def digit_string_def)
qed

lemma unclamped_large:
  assumes "0 \<le> k" "k * 60 \<le> 9007199254740992"
  shows "formatTimeString (toString k @ '':00'') (Whole 0) = toString k @ '':00'' \<and>
         timeToSeconds (formatTimeString (toString k @ '':00'') (Whole 0)) = Some (k * 60)"
proof -
  have ds: "digit_string (toString k)"
    using assms by (simp add: toString_nonneg digit_string_nat_toString)
  have 1: "formatTimeString (toString k @ '':00'') (Whole 0) = toString k @ '':00''"
    by (simp only: formatTimeString_unknown_duration rebuildTime_minutes_00 [OF ds])
  have "radix_value 10 digit_val ''00'' = 0"
    by (simp add: radix_value_def digit_val_def)
  moreover have "radix_value 10 digit_val (toString k) = nat k"
    using assms by (simp add: toString_nonneg nat_toString_value)
  ultimately have "timeToSeconds (toString k @ CHR '':'' # ''00'') = Some (k * 60)"
    using assms by (simp add: timeToSeconds_ms [OF ds digit_string_zeros(2)])
  with 1 show ?thesis by simp
qed

lemma formatSeconds_not_Nil: "formatSeconds s \<noteq> []"
  by (simp add: formatSeconds_def Let_def)

text \<open>A duration that is not an integer, with its seconds printed in positional notation.\<close>

lemma timeToSeconds_two:
  assumes "CHR '':'' \<notin> set a" "CHR '':'' \<notin> set b"
  shows "timeToSeconds (a @ CHR '':'' # b) = num_add (num_mul (parseInt a) (Some 60)) (parseInt b)"
  using assms by (simp add: timeToSeconds_def split_on_append split_on_no_sep)

lemma timeToSeconds_three:
  assumes "CHR '':'' \<notin> set a" "CHR '':'' \<notin> set b" "CHR '':'' \<notin> set c"
  shows "timeToSeconds (a @ CHR '':'' # b @ CHR '':'' # c)
         = num_add (num_add (num_mul (parseInt a) (Some 3600)) (num_mul (parseInt b) (Some 60)))
             (parseInt c)"
  using assms by (simp add: timeToSeconds_def split_on_append split_on_no_sep)

lemma parseInt_leading_digits:
  assumes "s = c # cs" "is_digit c" "takeWhile is_digit s = ds"
    and "take 2 s \<noteq> ''0x''" "take 2 s \<noteq> ''0X''"
  shows "parseInt s = Some (int (radix_value 10 digit_val ds))"
proof -
  have 1: "dropWhile is_space s = s" using assms(1,2) is_digit_not_space by simp
  have 2: "take 1 s \<noteq> ''-''" "take 1 s \<noteq> ''+''" using assms(1,2) is_digit_chars by auto
  have 5: "ds \<noteq> []" using assms(1,2,3) by auto
  show ?thesis
    by (simp add: parseInt_def Let_def 1 2 5 assms(3,4,5) del: One_nat_def)
qed

lemma parseInt_positional:
  assumes "digit_string ds"
  shows "parseInt (ds @ CHR ''.'' # rest) = Some (int (radix_value 10 digit_val ds))"
proof -
  obtain c cs where ds: "ds = c # cs" using assms by (cases ds) (auto simp: digit_string_def)
  have all: "\<forall>x\<in>set ds. is_digit x" using assms by (simp add: digit_string_def list_all_iff)
  have c: "is_digit c" using all ds by simp
  have nd: "\<not> is_digit CHR ''.''" by (simp add: is_digit_def)
  have 3: "take 2 (ds @ CHR ''.'' # rest) \<noteq> ''0x''" "take 2 (ds @ CHR ''.'' # rest) \<noteq> ''0X''"
    using all ds is_digit_chars by (cases cs; auto)+
  have 4: "takeWhile is_digit (ds @ CHR ''.'' # rest) = ds"
    using all nd by (simp add: takeWhile_append2)
  have "ds @ CHR ''.'' # rest = c # (cs @ CHR ''.'' # rest)" by (simp add: ds)
  then show ?thesis using parseInt_leading_digits [OF _ c 4 3] by blast
qed

lemma formatTimeString_clamped_fractional:
  assumes "0 \<le> w" "positional_seconds w txt"
  shows "\<exists>n. timeToSeconds (formatTimeString input (Fractional w txt)) = Some n \<and> n \<le> w"
proof -
  obtain n where n: "fst (rebuildTime input) = Some n"
    "timeToSeconds (snd (rebuildTime input)) = Some n"
    using rebuildTime_consistent by blast
  obtain frac where frac: "digit_string frac" "txt = toString (w mod 60) @ CHR ''.'' # frac"
    using assms(2) by (auto simp: positional_seconds_def)
  let ?h = "nat_toString (nat (w div 3600))"
  let ?m = "nat_toString (nat (w mod 3600 div 60))"
  let ?x = "nat_toString (nat (w mod 60))"
  have nn: "0 \<le> w div 3600" "0 \<le> w mod 3600 div 60" "0 \<le> w mod 60"
    using assms(1) by (simp_all add: pos_imp_zdiv_nonneg_iff)
  have tx: "txt = ?x @ CHR ''.'' # frac"
    using frac nn by (simp add: toString_nonneg)
  have len: "2 \<le> length txt" using digit_string_nat_toString [of "nat (w mod 60)"]
    by (cases ?x) (auto simp: tx digit_string_def)
  have pad: "padStart 2 CHR ''0'' txt = txt" using len by (simp add: padStart_def)
  have nocolon: "CHR '':'' \<notin> set txt"
    using digit_string_no_colon [OF frac(1)]
      digit_string_no_colon [OF digit_string_nat_toString [of "nat (w mod 60)"]]
    by (simp add: tx)
  have ptxt: "parseInt txt = Some (w mod 60)"
    using parseInt_positional [OF digit_string_nat_toString, of "nat (w mod 60)" frac] nn
    by (simp add: tx nat_toString_value)
  show ?thesis
  proof (cases "n > w")
    case False
    then have "formatTimeString input (Fractional w txt) = snd (rebuildTime input)"
      using n by (simp add: formatTimeString_result exceeds_def)
    then show ?thesis using n False by simp
  next
    case True
    then have r: "formatTimeString input (Fractional w txt) = formatSecondsNumber (Fractional w txt)"
      using n assms(1) by (simp add: formatTimeString_result exceeds_def is_positive_def)
    show ?thesis
    proof (cases "0 < w div 3600")
      case h: True
      have "formatSecondsNumber (Fractional w txt)
            = ?h @ CHR '':'' # padStart 2 CHR ''0'' ?m @ CHR '':'' # txt"
        using h nn assms(1)
        by (simp add: formatSecondsNumber_def Let_def floor_rem_def toString_nonneg pad)
      moreover have "timeToSeconds (?h @ CHR '':'' # padStart 2 CHR ''0'' ?m @ CHR '':'' # txt)
            = Some (int (nat (w div 3600)) * 3600 + int (nat (w mod 3600 div 60)) * 60 + w mod 60)"
        using nocolon
        by (simp add: timeToSeconds_three digit_string_no_colon digit_string_nat_toString
            digit_string_padStart parseInt_digit_string ptxt nat_toString_value
            radix_value_padStart num_add_def num_mul_def)
      ultimately have "timeToSeconds (formatTimeString input (Fractional w txt)) = Some w"
        using r nn hms_decompose [of w] by simp
      then show ?thesis by simp
    next
      case h: False
      have "formatSecondsNumber (Fractional w txt) = ?m @ CHR '':'' # txt"
        using h nn assms(1)
        by (simp add: formatSecondsNumber_def Let_def floor_rem_def toString_nonneg pad)
      moreover have "timeToSeconds (?m @ CHR '':'' # txt)
            = Some (int (nat (w mod 3600 div 60)) * 60 + w mod 60)"
        using nocolon
        by (simp add: timeToSeconds_two digit_string_no_colon digit_string_nat_toString
            parseInt_digit_string ptxt nat_toString_value num_add_def num_mul_def)
      ultimately have "timeToSeconds (formatTimeString input (Fractional w txt)) = Some w"
        using r nn ms_decompose [OF assms(1) h] by simp
      then show ?thesis by simp
    qed
  qed
qed

text \<open>
  C2. The clamp formats the stored duration as it is. With the duration 100.5 the input \<open>9:00\<close>
  comes back as \<open>1:40.5\<close>, which is not a time of the form \<open>m:ss\<close> and fails the commit-time
  check. With the duration 120.00000000000001 the remainder below the minute prints in exponent
  notation, the input \<open>9:00\<close> comes back as \<open>2:1.4210854715202004e-14\<close>, and \<open>timeToSeconds\<close> reads
  121 from it, which is beyond the duration. With the duration 120 the same input comes back as
  \<open>2:00\<close>.
\<close>

theorem C2_clamp_at_fractional_duration:
  "formatTimeString ''9:00'' (Fractional 100 ''40.5'') = ''1:40.5''
   \<and> \<not> regex_test timeRegex (formatTimeString ''9:00'' (Fractional 100 ''40.5''))
   \<and> formatTimeString ''9:00'' (Fractional 120 ''1.4210854715202004e-14'')
       = ''2:1.4210854715202004e-14''
   \<and> timeToSeconds (formatTimeString ''9:00'' (Fractional 120 ''1.4210854715202004e-14''))
       = Some 121
   \<and> exceeds (Some 121) (Fractional 120 ''1.4210854715202004e-14'')
   \<and> formatTimeString ''9:00'' (Whole 120) = ''2:00''
   \<and> timeToSeconds (formatTimeString ''9:00'' (Whole 120)) = Some 120"
  by code_simp

section \<open>Sorting and the runs of the component\<close>

lemma mset_js_insort: "mset (js_insort cmp x ys) = add_mset x (mset ys)"
  by (induction ys) simp_all

lemma mset_js_sort: "mset (js_sort cmp xs) = mset xs"
  by (induction xs) (simp_all add: js_sort_def mset_js_insort)

lemma set_js_sort: "set (js_sort cmp xs) = set xs"
  using mset_js_sort [of cmp xs] by (metis set_mset_mset)

lemma js_sort_Cons: "js_sort cmp (x # xs) = js_insort cmp x (js_sort cmp xs)"
  by (simp add: js_sort_def)

lemma js_sort_Nil: "js_sort cmp [] = []"
  by (simp add: js_sort_def)

lemma cmp_bySeconds:
  "seconds a \<noteq> None \<Longrightarrow> seconds b \<noteq> None \<Longrightarrow> cmp_greater (bySeconds a b) \<longleftrightarrow> \<not> sec a \<le> sec b"
  by (auto simp: cmp_greater_def bySeconds_def num_sub_def sec_def)

lemma js_insort_bySeconds:
  "seconds x \<noteq> None \<Longrightarrow> numeric ys \<Longrightarrow> js_insort bySeconds x ys = insort_key sec x ys"
  by (induction ys) (simp_all add: numeric_def cmp_bySeconds)

lemma sortedView_sort_key: "numeric ts \<Longrightarrow> sortedView ts = sort_key sec ts"
proof (induction ts)
  case Nil
  show ?case by (simp add: sortedView_def js_sort_Nil)
next
  case (Cons t ts)
  then have n: "seconds t \<noteq> None" "numeric ts" by (simp_all add: numeric_def)
  then have "numeric (sort_key sec ts)" by (simp add: numeric_def list_all_iff)
  with Cons.IH n show ?case
    by (simp add: sortedView_def js_sort_Cons js_insort_bySeconds)
qed

lemma set_sortedView: "set (sortedView ts) = set ts"
  by (simp add: sortedView_def set_js_sort)

lemma mset_sortedView: "mset (sortedView ts) = mset ts"
  by (simp add: sortedView_def mset_js_sort)

lemma sortedView_Nil: "sortedView [] = []"
  by (simp add: sortedView_def js_sort_Nil)

lemma run_Nil: "run [] = initial_state"
  by (simp add: run_def)

lemma run_snoc: "run (es @ [e]) = step (run es) e"
  by (simp add: run_def)

lemma timestamps_step:
  "timestamps (step st e) = timestamps st
   \<or> timestamps (step st e) = []
   \<or> timestamps (step st e) = sortedView (timestamps st)
   \<or> (\<exists>i. e = RemoveTimestamp i \<and> timestamps (step st e) = filter (\<lambda>t. id' t \<noteq> i) (timestamps st))
   \<or> (\<exists>now. e = AddTimestamp now \<and> regex_test timeRegex (currentTime st)
        \<and> metadata st \<noteq> None \<and> currentDescription st \<noteq> [] \<and>
        timestamps (step st e) = timestamps st @
          [\<lparr> id' = toString now, time = currentTime st, description = currentDescription st,
             seconds = timeToSeconds (currentTime st) \<rparr>])"
  by (cases e)
     (auto simp: handleSubmit_def addTimestamp_def removeTimestamp_def copyToClipboard_def
        render_def Let_def split: option.splits)

lemma regex_test_numeric:
  assumes "regex_test timeRegex t"
  shows "\<exists>n. timeToSeconds t = Some n"
proof -
  from assms have "t \<in> lang timeRegex" by (simp add: regex_test_lang)
  then consider (two) m x where "t = m @ CHR '':'' # x" "minutes_pattern m" "seconds_pattern x"
    | (three) h m x where "t = h @ CHR '':'' # m @ CHR '':'' # x" "digit_string h"
        "minutes_pattern m" "seconds_pattern x"
    unfolding lang_timeRegex by blast
  then show ?thesis
  proof cases
    case two
    then show ?thesis
      by (simp add: timeToSeconds_ms minutes_pattern_digits seconds_pattern_digits)
  next
    case three
    then show ?thesis
      by (simp add: timeToSeconds_hms minutes_pattern_digits seconds_pattern_digits)
  qed
qed

lemma valid_entries_step:
  assumes "list_all valid_entry (timestamps st)"
  shows "list_all valid_entry (timestamps (step st e))"
  using timestamps_step [of st e] assms
  by (auto simp: list_all_iff set_sortedView valid_entry_def)

lemma valid_entries_run: "list_all valid_entry (timestamps (run es))"
proof (induction es rule: rev_induct)
  case Nil
  show ?case by (simp add: run_Nil initial_state_def)
next
  case (snoc e es)
  then show ?case by (simp add: run_snoc valid_entries_step)
qed

lemma valid_entry_numeric: "valid_entry t \<Longrightarrow> seconds t \<noteq> None"
  using regex_test_numeric [of "time t"] by (auto simp: valid_entry_def)

lemma numeric_run: "numeric (timestamps (run es))"
  using valid_entries_run [of es] valid_entry_numeric
  by (auto simp: numeric_def list_all_iff)

lemma same_entries_refl: "same_entries xs xs"
  by (simp add: same_entries_def)

lemma same_entries_sortedView:
  assumes "numeric xs" "same_entries xs ys"
  shows "same_entries (sortedView xs) ys"
  using assms by (simp add: same_entries_def sortedView_sort_key sort_key_stable)

lemma same_entries_filter:
  "same_entries xs ys \<Longrightarrow> same_entries (filter P xs) (filter P ys)"
proof -
  assume a: "same_entries xs ys"
  have "filter (\<lambda>t. sec t = k) (filter P xs) = filter (\<lambda>t. sec t = k) (filter P ys)" for k
  proof -
    have "filter (\<lambda>t. sec t = k) (filter P xs) = filter P (filter (\<lambda>t. sec t = k) xs)"
      by (simp add: conj_commute)
    also have "\<dots> = filter P (filter (\<lambda>t. sec t = k) ys)"
      using a by (simp add: same_entries_def)
    also have "\<dots> = filter (\<lambda>t. sec t = k) (filter P ys)"
      by (simp add: conj_commute)
    finally show ?thesis .
  qed
  moreover have "mset (filter P xs) = mset (filter P ys)"
    using a mset_filter [of P xs] mset_filter [of P ys] by (simp add: same_entries_def)
  ultimately show ?thesis by (simp add: same_entries_def)
qed

lemma same_entries_snoc: "same_entries xs ys \<Longrightarrow> same_entries (xs @ [t]) (ys @ [t])"
  by (simp add: same_entries_def)

lemma same_but_order_step:
  assumes "same_but_order st u" "numeric (timestamps st)"
  shows "same_but_order (step st e) (step_unsorted u e)"
proof (cases e)
  case (Submit url extracted)
  with assms show ?thesis
    by (auto simp: same_but_order_def handleSubmit_def same_entries_refl split: option.splits)
next
  case (AddTimestamp now)
  with assms show ?thesis
    by (auto simp: same_but_order_def addTimestamp_def Let_def same_entries_snoc)
next
  case (RemoveTimestamp i)
  with assms show ?thesis
    by (auto simp: same_but_order_def removeTimestamp_def same_entries_filter)
next
  case CopyToClipboard
  with assms show ?thesis
    by (auto simp: same_but_order_def copyToClipboard_def same_entries_sortedView)
next
  case Render
  with assms show ?thesis
    by (auto simp: same_but_order_def render_def same_entries_sortedView)
qed (use assms in \<open>auto simp: same_but_order_def\<close>)

lemma same_but_order_run: "same_but_order (run es) (foldl step_unsorted initial_state es)"
proof (induction es rule: rev_induct)
  case Nil
  show ?case by (simp add: run_Nil same_but_order_def same_entries_refl)
next
  case (snoc e es)
  then show ?case using same_but_order_step [OF snoc numeric_run] by (simp add: run_snoc)
qed

lemma same_entries_run: "same_entries (timestamps (run es)) (insertion_order es)"
  using same_but_order_run [of es] by (simp add: same_but_order_def insertion_order_def)

lemma same_entries_sort_key:
  assumes "same_entries xs ys"
  shows "sort_key sec xs = sort_key sec ys"
proof (rule properties_for_sort_key)
  show "mset (sort_key sec ys) = mset xs" using assms by (simp add: same_entries_def)
  show "sorted (map sec (sort_key sec ys))" by simp
  fix k
  have "filter (\<lambda>x. sec k = sec x) (sort_key sec ys) = filter (\<lambda>x. sec x = sec k) (sort_key sec ys)"
    by (rule filter_cong) auto
  also have "\<dots> = filter (\<lambda>x. sec x = sec k) ys" by (rule sort_key_stable)
  also have "\<dots> = filter (\<lambda>x. sec x = sec k) xs" using assms by (simp add: same_entries_def)
  also have "\<dots> = filter (\<lambda>x. sec k = sec x) xs" by (rule filter_cong) auto
  finally show "filter (\<lambda>x. sec k = sec x) (sort_key sec ys) = filter (\<lambda>x. sec k = sec x) xs" .
qed

lemma sortedView_run: "sortedView (timestamps (run es)) = sort_key sec (insertion_order es)"
  using same_entries_sort_key [OF same_entries_run] numeric_run
  by (simp add: sortedView_sort_key)

section \<open>Identities\<close>

lemma parseInt_toString: "parseInt (toString n) = Some n"
proof (cases "n < 0")
  case False
  then show ?thesis by (simp add: toString_def parseInt_nat_toString)
next
  case True
  let ?ds = "nat_toString (nat (- n))"
  have ds: "list_all is_digit ?ds" "?ds \<noteq> []" using nat_toString_digits by simp_all
  then obtain c cs where cs: "?ds = c # cs" by (cases ?ds) auto
  have c: "is_digit c" using ds cs by simp
  have 1: "\<not> is_space CHR ''-''" by (simp add: is_space_def)
  have 3: "take 2 ?ds \<noteq> ''0x''" "take 2 ?ds \<noteq> ''0X''"
    using ds(1) cs is_digit_chars by (cases cs; auto)+
  have 4: "takeWhile is_digit ?ds = ?ds" using ds(1) by (simp add: list_all_iff)
  have a: "dropWhile is_space (CHR ''-'' # ?ds) = CHR ''-'' # ?ds" using 1 by simp
  have b: "take 1 (CHR ''-'' # ?ds) = ''-''" "drop 1 (CHR ''-'' # ?ds) = ?ds" by simp_all
  have "parseInt (CHR ''-'' # ?ds) = Some (- int (radix_value 10 digit_val ?ds))"
    unfolding parseInt_def Let_def a b by (simp add: 3 4 ds(2))
  with True show ?thesis by (simp add: toString_def nat_toString_value)
qed

lemma inj_toString: "toString a = toString b \<Longrightarrow> a = b"
  by (metis parseInt_toString option.inject)

lemma distinct_ids_sortedView:
  "distinct (map id' (sortedView ts)) \<longleftrightarrow> distinct (map id' ts)"
proof -
  have "mset (map id' (sortedView ts)) = mset (map id' ts)"
    using mset_sortedView [of ts] by (metis mset_map)
  then show ?thesis by (rule mset_eq_imp_distinct_iff)
qed

lemma addTimestamp_success:
  "fst (addTimestamp now st) = Some (ToastSuccess ''Timestamp added'') \<longleftrightarrow>
     metadata st \<noteq> None \<and> currentTime st \<noteq> [] \<and> currentDescription st \<noteq> []
     \<and> regex_test timeRegex (currentTime st)"
  by (simp add: addTimestamp_def Let_def)

lemma addTimestamp_success_timestamps:
  "fst (addTimestamp now st) = Some (ToastSuccess ''Timestamp added'') \<Longrightarrow>
   timestamps (snd (addTimestamp now st)) = timestamps st @
     [\<lparr> id' = toString now, time = currentTime st, description = currentDescription st,
        seconds = timeToSeconds (currentTime st) \<rparr>]"
  by (simp add: addTimestamp_def Let_def split: if_splits)

lemma addTimestamp_failure_state:
  "fst (addTimestamp now st) \<noteq> Some (ToastSuccess ''Timestamp added'') \<Longrightarrow>
   snd (addTimestamp now st) = st"
  by (auto simp: addTimestamp_def Let_def)

lemma ids_step_other:
  assumes "\<forall>now. e \<noteq> AddTimestamp now" "distinct (map id' (timestamps st))"
  shows "distinct (map id' (timestamps (step st e))) \<and>
         id' ` set (timestamps (step st e)) \<subseteq> id' ` set (timestamps st)"
  using timestamps_step [of st e] assms
  by (auto simp: distinct_ids_sortedView set_sortedView distinct_map_filter)

lemma add_clocks_other:
  "\<forall>now. e \<noteq> AddTimestamp now \<Longrightarrow> add_clocks st (e # es) = add_clocks (step st e) es"
  by (cases e) simp_all

lemma distinct_ids_foldl:
  assumes "distinct (map id' (timestamps st))"
    and "id' ` set (timestamps st) \<subseteq> toString ` A"
    and "distinct (add_clocks st es)"
    and "set (add_clocks st es) \<inter> A = {}"
  shows "distinct (map id' (timestamps (foldl step st es)))"
  using assms
proof (induction es arbitrary: st A)
  case Nil
  then show ?case by simp
next
  case (Cons e es)
  show ?case
  proof (cases "\<exists>now. e = AddTimestamp now")
    case False
    then have o: "\<forall>now. e \<noteq> AddTimestamp now" by simp
    have "distinct (map id' (timestamps (foldl step (step st e) es)))"
    proof (rule Cons.IH [of "step st e" A])
      show "distinct (map id' (timestamps (step st e)))"
        using ids_step_other [OF o Cons.prems(1)] by simp
      show "id' ` set (timestamps (step st e)) \<subseteq> toString ` A"
        using ids_step_other [OF o Cons.prems(1)] Cons.prems(2) by blast
      show "distinct (add_clocks (step st e) es)"
        using Cons.prems(3) by (simp add: add_clocks_other [OF o])
      show "set (add_clocks (step st e) es) \<inter> A = {}"
        using Cons.prems(4) by (simp add: add_clocks_other [OF o])
    qed
    then show ?thesis by simp
  next
    case True
    then obtain now where e: "e = AddTimestamp now" by blast
    show ?thesis
    proof (cases "fst (addTimestamp now st) = Some (ToastSuccess ''Timestamp added'')")
      case False
      then have same: "step st e = st" using e by (simp add: addTimestamp_failure_state)
      have "distinct (map id' (timestamps (foldl step st es)))"
        using Cons.IH [of st A] Cons.prems False e same by simp
      then show ?thesis using same by simp
    next
      case ok: True
      let ?new = "\<lparr> id' = toString now, time = currentTime st,
        description = currentDescription st, seconds = timeToSeconds (currentTime st) \<rparr>"
      have ts: "timestamps (step st e) = timestamps st @ [?new]"
        using e addTimestamp_success_timestamps [OF ok] by simp
      have clocks: "add_clocks st (e # es) = now # add_clocks (step st e) es"
        using e ok by simp
      have fresh: "now \<notin> A" using Cons.prems(4) clocks by simp
      have "toString now \<notin> toString ` A"
        using fresh inj_toString by blast
      then have notin: "toString now \<notin> id' ` set (timestamps st)"
        using Cons.prems(2) by blast
      have "distinct (map id' (timestamps (foldl step (step st e) es)))"
      proof (rule Cons.IH [of "step st e" "insert now A"])
        show "distinct (map id' (timestamps (step st e)))"
          using Cons.prems(1) notin by (simp add: ts)
        show "id' ` set (timestamps (step st e)) \<subseteq> toString ` insert now A"
          using Cons.prems(2) by (auto simp: ts)
        show "distinct (add_clocks (step st e) es)"
          using Cons.prems(3) clocks by simp
        show "set (add_clocks (step st e) es) \<inter> insert now A = {}"
          using Cons.prems(3,4) clocks by auto
      qed
      then show ?thesis by simp
    qed
  qed
qed

lemma distinct_ids_run:
  "distinct (add_clocks initial_state es) \<Longrightarrow> distinct (map id' (timestamps (run es)))"
  using distinct_ids_foldl [of initial_state "{}" es]
  by (simp add: run_def initial_state_def)

lemma ids_never_change:
  "t \<in> set (timestamps (step st e)) \<Longrightarrow>
     t \<in> set (timestamps st) \<or> (\<exists>now. e = AddTimestamp now \<and> id' t = toString now)"
  using timestamps_step [of st e] by (auto simp: set_sortedView)

section \<open>The sorted view\<close>

lemma numeric_seconds_filter:
  "numeric ts \<Longrightarrow> filter (\<lambda>t. seconds t = Some k) ts = filter (\<lambda>t. sec t = k) ts"
  by (rule filter_cong) (auto simp: numeric_def list_all_iff sec_def)

lemma numeric_insertion_order: "numeric (insertion_order es)"
proof -
  have "set (insertion_order es) = set (timestamps (run es))"
    using same_entries_run [of es] by (metis same_entries_def set_mset_mset)
  then show ?thesis using numeric_run [of es] by (simp add: numeric_def list_all_iff)
qed

lemma numeric_sortedView: "numeric ts \<Longrightarrow> numeric (sortedView ts)"
  by (simp add: numeric_def list_all_iff set_sortedView)

lemma numeric_Some_sec: "numeric ts \<Longrightarrow> list_all (\<lambda>t. seconds t = Some (sec t)) ts"
  by (auto simp: numeric_def list_all_iff sec_def)

text \<open>
  C4. After every run of the component the sorted view holds all entries of the list, ascending by
  \<open>seconds\<close> (every \<open>seconds\<close> being a number), and the entries with equal \<open>seconds\<close> stand in the order
  in which they were inserted. Inserting 50, 10, 10, 30 gives the view 10 (first), 10 (second),
  30, 50.
\<close>

theorem C4_sorted_view_ascending_stable:
  "mset (sortedView (timestamps (run es))) = mset (timestamps (run es))
   \<and> mset (timestamps (run es)) = mset (insertion_order es)
   \<and> list_all (\<lambda>t. seconds t = Some (sec t)) (sortedView (timestamps (run es)))
   \<and> sorted (map sec (sortedView (timestamps (run es))))
   \<and> filter (\<lambda>t. seconds t = Some k) (sortedView (timestamps (run es)))
       = filter (\<lambda>t. seconds t = Some k) (insertion_order es)
   \<and> map seconds (insertion_order run_50_10_10_30) = [Some 50, Some 10, Some 10, Some 30]
   \<and> map id' (insertion_order run_50_10_10_30) = [''1'', ''2'', ''3'', ''4'']
   \<and> map seconds (sortedView (timestamps (run run_50_10_10_30)))
       = [Some 10, Some 10, Some 30, Some 50]
   \<and> map id' (sortedView (timestamps (run run_50_10_10_30))) = [''2'', ''3'', ''4'', ''1'']"
proof -
  let ?v = "sortedView (timestamps (run es))"
  have v: "?v = sort_key sec (insertion_order es)" by (rule sortedView_run)
  have 1: "mset ?v = mset (timestamps (run es))" by (rule mset_sortedView)
  have 2: "mset (timestamps (run es)) = mset (insertion_order es)"
    using same_entries_run [of es] by (simp add: same_entries_def)
  have 3: "list_all (\<lambda>t. seconds t = Some (sec t)) ?v"
    using numeric_Some_sec [OF numeric_sortedView [OF numeric_run]] .
  have 4: "sorted (map sec ?v)" by (simp add: v)
  have "filter (\<lambda>t. seconds t = Some k) ?v = filter (\<lambda>t. sec t = k) ?v"
    using numeric_seconds_filter [OF numeric_sortedView [OF numeric_run]] .
  also have "\<dots> = filter (\<lambda>t. sec t = k) (insertion_order es)"
    by (simp add: v sort_key_stable)
  also have "\<dots> = filter (\<lambda>t. seconds t = Some k) (insertion_order es)"
    using numeric_seconds_filter [OF numeric_insertion_order] by simp
  finally have 5: "filter (\<lambda>t. seconds t = Some k) ?v
       = filter (\<lambda>t. seconds t = Some k) (insertion_order es)" .
  have 6: "map seconds (insertion_order run_50_10_10_30) = [Some 50, Some 10, Some 10, Some 30]"
    by code_simp
  have 7: "map id' (insertion_order run_50_10_10_30) = [''1'', ''2'', ''3'', ''4'']"
    by code_simp
  have 8: "map seconds (sortedView (timestamps (run run_50_10_10_30)))
       = [Some 10, Some 10, Some 30, Some 50]"
    by code_simp
  have 9: "map id' (sortedView (timestamps (run run_50_10_10_30))) = [''2'', ''3'', ''4'', ''1'']"
    by code_simp
  show ?thesis using 1 2 3 4 5 6 7 8 9 by blast
qed

theorem C4_sorted_view_ascending_stable_witness:
  "sorted (map sec (sortedView (timestamps (run run_intro_hook))))
   \<and> filter (\<lambda>t. seconds t = Some 30) (sortedView (timestamps (run run_intro_hook)))
       = filter (\<lambda>t. seconds t = Some 30) (insertion_order run_intro_hook)"
  using C4_sorted_view_ascending_stable [of run_intro_hook 30] by blast

section \<open>Sorting in place, identities and removal\<close>

lemma metadata_step: "metadata st \<noteq> None \<Longrightarrow> metadata (step st e) \<noteq> None"
  by (cases e)
     (auto simp: handleSubmit_def addTimestamp_def removeTimestamp_def copyToClipboard_def
        render_def Let_def split: option.splits)










text \<open>
  C6, as the code has it. The identity of an entry is the decimal text of the clock reading at the
  moment of its addition, and no operation changes the identity of a stored entry. When the clock
  readings of the successful additions of a run are pairwise different, no two entries of the list
  share an identity.
\<close>

theorem C6_ids_distinct_for_distinct_clock:
  "(distinct (add_clocks initial_state es) \<longrightarrow> distinct (map id' (timestamps (run es))))
   \<and> (t \<in> set (timestamps (step st e)) \<longrightarrow>
        t \<in> set (timestamps st) \<or> (\<exists>now. e = AddTimestamp now \<and> id' t = toString now))"
  using distinct_ids_run [of es] ids_never_change [of t st e] by blast

theorem C6_ids_distinct_for_distinct_clock_witness:
  "distinct (add_clocks initial_state run_50_10_10_30)
   \<and> distinct (map id' (timestamps (run run_50_10_10_30)))"
proof -
  have h: "distinct (add_clocks initial_state run_50_10_10_30)" by code_simp
  with C6_ids_distinct_for_distinct_clock [of run_50_10_10_30] show ?thesis by blast
qed

text \<open>Against C6 as stated: two additions at the same clock reading give two entries with the
  same identity.\<close>

theorem C6_same_clock_same_id:
  "map id' (timestamps (run run_same_clock)) = [''1000'', ''1000'']
   \<and> \<not> distinct (map id' (timestamps (run run_same_clock)))"
  by code_simp

section \<open>Export, consistency of entries, removal and commit\<close>

text \<open>
  C7. The export text is the sorted view, each entry as the line \<open>time - description\<close>, joined by
  line feeds; for the empty list it is the empty string (and \<open>copyToClipboard\<close> then writes
  nothing). After adding 1:05 Intro and then 0:30 Hook the text is \<open>0:30 - Hook\<close>, a line feed,
  \<open>1:05 - Intro\<close>.
\<close>

theorem C7_export_text:
  "exportText ts = join [CHR 0x0A] (map (\<lambda>t. time t @ '' - '' @ description t) (sortedView ts))
   \<and> exportText [] = []
   \<and> snd (fst (copyToClipboard st))
       = (if timestamps st = [] then None else Some (exportText (timestamps st)))
   \<and> map (\<lambda>t. (time t, description t)) (insertion_order run_intro_hook)
       = [(''1:05'', ''Intro''), (''0:30'', ''Hook'')]
   \<and> exportText (timestamps (run run_intro_hook))
       = ''0:30 - Hook'' @ [CHR 0x0A] @ ''1:05 - Intro''
   \<and> snd (fst (copyToClipboard (run run_intro_hook)))
       = Some (''0:30 - Hook'' @ [CHR 0x0A] @ ''1:05 - Intro'')"
proof -
  have 1: "exportText ts
      = join [CHR 0x0A] (map (\<lambda>t. time t @ '' - '' @ description t) (sortedView ts))"
    by (simp add: exportText_def exportLine_def [abs_def])
  have 2: "exportText [] = []" by (simp add: exportText_def sortedView_Nil)
  have 3: "snd (fst (copyToClipboard st))
       = (if timestamps st = [] then None else Some (exportText (timestamps st)))"
    by (simp add: copyToClipboard_def)
  have 4: "map (\<lambda>t. (time t, description t)) (insertion_order run_intro_hook)
       = [(''1:05'', ''Intro''), (''0:30'', ''Hook'')]"
    by code_simp
  have 5: "exportText (timestamps (run run_intro_hook))
       = ''0:30 - Hook'' @ [CHR 0x0A] @ ''1:05 - Intro''"
    by code_simp
  have 6: "snd (fst (copyToClipboard (run run_intro_hook)))
       = Some (''0:30 - Hook'' @ [CHR 0x0A] @ ''1:05 - Intro'')"
    by code_simp
  show ?thesis using 1 2 3 4 5 6 by blast
qed

theorem C7_export_text_witness:
  "snd (fst (copyToClipboard initial_state)) = None
   \<and> exportText (timestamps initial_state) = []"
proof -
  have h: "timestamps initial_state = []" by (simp add: initial_state_def)
  from C7_export_text [of "[]" initial_state]
  have "exportText [] = []"
    and "snd (fst (copyToClipboard initial_state))
       = (if timestamps initial_state = [] then None else Some (exportText (timestamps initial_state)))"
    by blast+
  then show ?thesis by (simp add: h)
qed

lemma consistent_step:
  assumes "list_all (\<lambda>t. seconds t = timeToSeconds (time t)) (timestamps st)"
  shows "list_all (\<lambda>t. seconds t = timeToSeconds (time t)) (timestamps (step st e))"
  using timestamps_step [of st e] assms
  by (auto simp: list_all_iff set_sortedView)

lemma consistent_run: "list_all (\<lambda>t. seconds t = timeToSeconds (time t)) (timestamps (run es))"
  using valid_entries_run [of es] by (simp add: list_all_iff valid_entry_def)

text \<open>
  C8. After every run of the component, every entry of the list has \<open>seconds\<close> equal to
  \<open>timeToSeconds\<close> of its \<open>time\<close>; and every single operation keeps this true of the list, from any
  state in which it holds.
\<close>

theorem C8_seconds_consistent_with_time:
  "list_all (\<lambda>t. seconds t = timeToSeconds (time t)) (timestamps (run es))
   \<and> (list_all (\<lambda>t. seconds t = timeToSeconds (time t)) (timestamps st) \<longrightarrow>
        list_all (\<lambda>t. seconds t = timeToSeconds (time t)) (timestamps (step st e)))"
  using consistent_run [of es] consistent_step [of st e] by blast

theorem C8_seconds_consistent_with_time_witness:
  "list_all (\<lambda>t. seconds t = timeToSeconds (time t)) (timestamps (run run_intro_hook))
   \<and> map seconds (timestamps (run run_intro_hook)) = [Some 65, Some 30]
   \<and> list_all (\<lambda>t. seconds t = timeToSeconds (time t))
        (timestamps (step (run run_intro_hook) (RemoveTimestamp ''1'')))"
proof -
  have "map seconds (timestamps (run run_intro_hook)) = [Some 65, Some 30]" by code_simp
  with C8_seconds_consistent_with_time [of run_intro_hook "run run_intro_hook" "RemoveTimestamp ''1''"]
  show ?thesis by blast
qed

lemma length_filter_distinct_id:
  "distinct (map id' ts) \<Longrightarrow> i \<in> id' ` set ts \<Longrightarrow>
   length (filter (\<lambda>t. id' t \<noteq> i) ts) + 1 = length ts"
proof (induction ts)
  case Nil
  then show ?case by simp
next
  case (Cons a ts)
  show ?case
  proof (cases "id' a = i")
    case True
    then have "i \<notin> id' ` set ts" using Cons.prems(1) by auto
    then have "filter (\<lambda>t. id' t \<noteq> i) ts = ts" by (auto simp: filter_id_conv)
    with True show ?thesis by simp
  next
    case False
    with Cons show ?thesis by auto
  qed
qed

lemma removeTimestamp_absent:
  assumes "i \<notin> id' ` set (timestamps st)"
  shows "snd (removeTimestamp i st) = st"
proof -
  have "filter (\<lambda>t. id' t \<noteq> i) (timestamps st) = timestamps st"
    using assms by (auto simp: filter_id_conv)
  then show ?thesis by (simp add: removeTimestamp_def)
qed

text \<open>
  C9, as the code has it. \<open>removeTimestamp\<close> keeps, in their order, exactly the entries whose
  identity differs from the given one, and changes nothing else; when identities are distinct and
  the given one is present, the list becomes one entry shorter. For an absent identity the state
  is unchanged. The function returns nothing and announces \<open>Timestamp removed\<close> in every case.
\<close>

theorem C9_remove_by_identity:
  "snd (removeTimestamp i st) = st\<lparr> timestamps := filter (\<lambda>t. id' t \<noteq> i) (timestamps st) \<rparr>
   \<and> fst (removeTimestamp i st) = ToastSuccess ''Timestamp removed''
   \<and> (i \<notin> id' ` set (timestamps st) \<longrightarrow> snd (removeTimestamp i st) = st)
   \<and> (distinct (map id' (timestamps st)) \<and> i \<in> id' ` set (timestamps st) \<longrightarrow>
        length (timestamps (snd (removeTimestamp i st))) + 1 = length (timestamps st))"
proof -
  have "distinct (map id' (timestamps st)) \<and> i \<in> id' ` set (timestamps st) \<longrightarrow>
        length (timestamps (snd (removeTimestamp i st))) + 1 = length (timestamps st)"
    using length_filter_distinct_id [of "timestamps st" i] by (simp add: removeTimestamp_def)
  then show ?thesis
    using removeTimestamp_absent [of i st] by (simp add: removeTimestamp_def)
qed

theorem C9_remove_by_identity_witness:
  "distinct (map id' (timestamps (run run_intro_hook)))
   \<and> ''1'' \<in> id' ` set (timestamps (run run_intro_hook))
   \<and> length (timestamps (snd (removeTimestamp ''1'' (run run_intro_hook)))) + 1
       = length (timestamps (run run_intro_hook))
   \<and> ''7'' \<notin> id' ` set (timestamps (run run_intro_hook))
   \<and> snd (removeTimestamp ''7'' (run run_intro_hook)) = run run_intro_hook"
proof -
  have a: "distinct (map id' (timestamps (run run_intro_hook)))" by code_simp
  have b: "''1'' \<in> id' ` set (timestamps (run run_intro_hook))" by code_simp
  have c: "''7'' \<notin> id' ` set (timestamps (run run_intro_hook))" by code_simp
  show ?thesis
    using a b c C9_remove_by_identity [of "''1''" "run run_intro_hook"]
      C9_remove_by_identity [of "''7''" "run run_intro_hook"]
    by blast
qed

text \<open>Against C9 as stated: removing an identity that is absent is announced exactly like
  removing one that is present, so nothing reports that nothing was removed.\<close>

theorem C9_absent_id_reported_removed:
  "''7'' \<notin> id' ` set (timestamps (run run_intro_hook))
   \<and> ''1'' \<in> id' ` set (timestamps (run run_intro_hook))
   \<and> fst (removeTimestamp ''7'' (run run_intro_hook)) = ToastSuccess ''Timestamp removed''
   \<and> fst (removeTimestamp ''7'' (run run_intro_hook))
       = fst (removeTimestamp ''1'' (run run_intro_hook))"
  by code_simp

lemma formatSeconds_committable:
  assumes "0 \<le> s" "metadata st \<noteq> None" "currentDescription st \<noteq> []"
    "currentTime st = formatSeconds s"
  shows "addTimestamp now st =
    (Some (ToastSuccess ''Timestamp added''),
     st\<lparr> timestamps := timestamps st @
            [\<lparr> id' = toString now, time = formatSeconds s,
               description = currentDescription st, seconds = Some s \<rparr>],
         currentDescription := [], currentTime := ''0:00'' \<rparr>)"
  using assms formatSeconds_accepted [of s] formatSeconds_not_Nil [of s]
    formatSeconds_roundtrip_nonneg [of s]
  by (simp add: addTimestamp_def Let_def)

lemma captureCurrentTime_below_hour:
  assumes "0 \<le> cs" "cs < 3600"
  shows "currentTime (captureCurrentTime (Some cs) st) = formatSeconds cs"
proof -
  have "cs div 3600 = 0" "cs mod 3600 = cs" using assms by simp_all
  then show ?thesis
    using assms by (simp add: captureCurrentTime_def formatSeconds_def Let_def js_rem_nonneg)
qed

text \<open>
  C10. Every formatted time passes the commit-time check (\<open>formatSeconds_accepted\<close>,
  \<open>formatSeconds_committable\<close>), but the capture button of \<open>src/pages/Index.tsx\<close> does not format
  through \<open>formatSeconds\<close>. With the player at 3600 seconds it writes \<open>60:00\<close>, which the check
  rejects, so that \<open>addTimestamp\<close> announces an invalid time format and adds nothing; the formatted
  time \<open>1:00:00\<close> of the same moment is added.
\<close>

theorem C10_captured_hour_is_rejected:
  "currentTime (captureCurrentTime (Some 3600) (run run_described)) = ''60:00''
   \<and> \<not> regex_test timeRegex ''60:00''
   \<and> fst (addTimestamp 1 (captureCurrentTime (Some 3600) (run run_described)))
       = Some (ToastError ''Invalid time format. Please use mm:ss or h:mm:ss'')
   \<and> timestamps (snd (addTimestamp 1 (captureCurrentTime (Some 3600) (run run_described)))) = []
   \<and> formatSeconds 3600 = ''1:00:00''
   \<and> fst (addTimestamp 1 (step (run run_described) (SetCurrentTime (formatSeconds 3600))))
       = Some (ToastSuccess ''Timestamp added'')
   \<and> map time (timestamps (snd (addTimestamp 1
         (step (run run_described) (SetCurrentTime (formatSeconds 3600))))))
       = [''1:00:00'']"
  by code_simp

end
